theory Spec2Isabelle
  imports Main "HOL-Library.Word" "HOL-Library.AList"
begin

section \<open>Errors and results\<close>

text \<open>
  Every exception or abort of the C++ sources is a value of \<open>error\<close>.  An operation on a
  mutable object returns its outcome together with the object as the operation left it, so
  that what a throwing call had already changed stays visible.  Format placeholders of
  \<open>fmt::format\<close> are kept as they are written in the source; the \<open>row:col\<close> prefix that
  \<open>CreateError\<close> formats into a parser message is kept as data.
\<close>

datatype error =
    DebuggerError string
  | ParserError "(nat \<times> nat) option" string
  | StdOutOfRange
  | StdInvalidArgument
  | StdRuntimeError string
  | AssertionFailed
  | Unreachable
  | NotImplemented
  | BadOperandAccess
  | EmptyOptionalAccess

type_synonym addr = "64 word"
type_synonym size_t = "64 word"

section \<open>Native control layer (debugger/Native.h)\<close>

subsection \<open>Data\<close>

record SoftwareBreakpoint =
  data :: string
  enabled :: bool

datatype WatchpointType = Write

record Watchpoint =
  wtype :: WatchpointType
  hw_reg :: nat

datatype BPType = Software

datatype StopReason =
  SoftwareBreakpointHit | HardwareBreak | Singlestep | ExecutionEnd | ExecutionBegin

datatype DebugEvent =
    BreakpointHit BPType addr
  | WatchpointTrigger WatchpointType addr
  | EvSinglestep
  | EvExecutionEnd
  | EvExecutionBegin

text \<open>
  \<open>Process\<close> is an abstract class whose implementations are not among the sources; the
  operations \<open>Native\<close> calls on it are taken as a parameter, over an arbitrary type \<open>'p\<close> of
  process states and an arbitrary type \<open>'d\<close> of debug-register files.  Queries leave the
  process as it is; commands return the new process state, also when they throw.
\<close>

record ('p, 'd) Process =
  proc_ReadText :: "'p \<Rightarrow> addr \<Rightarrow> size_t \<Rightarrow> error + string list"
  proc_WriteText :: "'p \<Rightarrow> addr \<Rightarrow> string list \<Rightarrow> (error + unit) \<times> 'p"
  proc_TextSize :: "'p \<Rightarrow> error + size_t"
  proc_FetchRegisters :: "'p \<Rightarrow> error + (string \<times> 64 word) list"
  proc_SetRegisters :: "'p \<Rightarrow> (string \<times> 64 word) list \<Rightarrow> (error + unit) \<times> 'p"
  proc_FetchDebugRegisters :: "'p \<Rightarrow> error + 'd"
  proc_SetDebugRegisters :: "'p \<Rightarrow> 'd \<Rightarrow> (error + unit) \<times> 'p"
  proc_Wait :: "'p \<Rightarrow> (error + unit) \<times> 'p"
  proc_GetReason :: "'p \<Rightarrow> error + StopReason"
  proc_Singlestep :: "'p \<Rightarrow> (error + unit) \<times> 'p"
  proc_ResumeExecution :: "'p \<Rightarrow> (error + unit) \<times> 'p"

text \<open>
  The static helpers of \<open>Arch\<close> (Arch.h is not among the sources) are a parameter as well.
  The helpers that update a debug-register file work on the caller's copy.
\<close>

record 'd Arch =
  arch_SupportHardwareLevelSingleStep :: bool
  arch_SupportsHardwareWatchpoints :: bool
  arch_DebugRegistersCount :: nat
  arch_GetResponsibleRegister :: "'d \<Rightarrow> error + nat"
  arch_SetDebugRegister :: "nat \<Rightarrow> addr \<Rightarrow> 'd \<Rightarrow> error + 'd"
  arch_ActivateDebugRegister :: "nat \<Rightarrow> 'd \<Rightarrow> error + 'd"
  arch_DeactivateDebugRegister :: "nat \<Rightarrow> 'd \<Rightarrow> error + 'd"

text \<open>
  The members of \<open>Native\<close>.  A \<open>std::map\<close> is an association list in ascending key order,
  looked up with \<open>map_of\<close>.
\<close>

record 'p Native =
  process :: 'p
  software_breakpoints :: "(addr \<times> SoftwareBreakpoint) list"
  watchpoints :: "(addr \<times> Watchpoint) list"
  cached_event :: "DebugEvent option"

text \<open>\<open>std::map::emplace\<close>: insert in key order unless the key is present.\<close>

fun map_emplace :: "'k::linorder \<Rightarrow> 'v \<Rightarrow> ('k \<times> 'v) list \<Rightarrow> ('k \<times> 'v) list" where
  "map_emplace k v [] = [(k, v)]"
| "map_emplace k v ((k', v') # t) =
     (if k = k' then (k', v') # t
      else if k < k' then (k, v) # (k', v') # t
      else (k', v') # map_emplace k v t)"

subsection \<open>Software breakpoints\<close>

text \<open>
  \<open>GetSoftwareBreakpointOpcode\<close>: the opcode table has the single entry of the T86 machine,
  the only machine the sources name.
\<close>

definition GetSoftwareBreakpointOpcode :: string where
  "GetSoftwareBreakpointOpcode = ''BKPT''"

text \<open>\<open>v.at(0)\<close> on the vector a process returned.\<close>

definition at0 :: "'a list \<Rightarrow> error + 'a" where
  "at0 v = (case v of [] \<Rightarrow> Inl StdOutOfRange | x # _ \<Rightarrow> Inr x)"

definition CreateSoftwareBreakpoint ::
  "('p, 'd) Process \<Rightarrow> 'p Native \<Rightarrow> addr \<Rightarrow> (error + SoftwareBreakpoint) \<times> 'p Native" where
  "CreateSoftwareBreakpoint P n address =
     (let opcode = GetSoftwareBreakpointOpcode in
      case proc_ReadText P (process n) address 1 of
        Inl e \<Rightarrow> (Inl e, n)
      | Inr v \<Rightarrow>
         (case at0 v of
            Inl e \<Rightarrow> (Inl e, n)
          | Inr backup \<Rightarrow>
             (case proc_WriteText P (process n) address [opcode] of
                (Inl e, p1) \<Rightarrow> (Inl e, n\<lparr>process := p1\<rparr>)
              | (Inr _, p1) \<Rightarrow>
                 (case proc_ReadText P p1 address 1 of
                    Inl e \<Rightarrow> (Inl e, n\<lparr>process := p1\<rparr>)
                  | Inr v2 \<Rightarrow>
                     (case at0 v2 of
                        Inl e \<Rightarrow> (Inl e, n\<lparr>process := p1\<rparr>)
                      | Inr new_opcode \<Rightarrow>
                         if new_opcode \<noteq> opcode
                         then (Inl (DebuggerError
                                 ''Failed to set breakpoint! Expected opcode '{}', got '{}' ''),
                               n\<lparr>process := p1\<rparr>)
                         else (Inr \<lparr>data = backup, enabled = True\<rparr>,
                               n\<lparr>process := p1\<rparr>))))))"

definition SetBreakpoint ::
  "('p, 'd) Process \<Rightarrow> 'p Native \<Rightarrow> addr \<Rightarrow> (error + unit) \<times> 'p Native" where
  "SetBreakpoint P n address =
     (if map_of (software_breakpoints n) address \<noteq> None
      then (Inl (DebuggerError ''Breakpoint at {} is already set!''), n)
      else case CreateSoftwareBreakpoint P n address of
             (Inl e, n1) \<Rightarrow> (Inl e, n1)
           | (Inr bp, n1) \<Rightarrow>
               (Inr (), n1\<lparr>software_breakpoints :=
                             map_emplace address bp (software_breakpoints n1)\<rparr>))"

definition EnableSoftwareBreakpoint ::
  "('p, 'd) Process \<Rightarrow> 'p Native \<Rightarrow> addr \<Rightarrow> (error + unit) \<times> 'p Native" where
  "EnableSoftwareBreakpoint P n address =
     (case map_of (software_breakpoints n) address of
        None \<Rightarrow> (Inl (DebuggerError ''No breakpoint at address {}!''), n)
      | Some bp \<Rightarrow>
          if \<not> enabled bp
          then (case CreateSoftwareBreakpoint P n address of
                  (Inl e, n1) \<Rightarrow> (Inl e, n1)
                | (Inr bp', n1) \<Rightarrow>
                    (Inr (), n1\<lparr>software_breakpoints :=
                                  AList.update address bp' (software_breakpoints n1)\<rparr>))
          else (Inr (), n))"

definition DisableSoftwareBreakpoint ::
  "('p, 'd) Process \<Rightarrow> 'p Native \<Rightarrow> addr \<Rightarrow> (error + unit) \<times> 'p Native" where
  "DisableSoftwareBreakpoint P n address =
     (case map_of (software_breakpoints n) address of
        None \<Rightarrow> (Inl (DebuggerError ''No breakpoint at address {}!''), n)
      | Some bp \<Rightarrow>
          if enabled bp
          then (case proc_WriteText P (process n) address [data bp] of
                  (Inl e, p1) \<Rightarrow> (Inl e, n\<lparr>process := p1\<rparr>)
                | (Inr _, p1) \<Rightarrow>
                    (Inr (), n\<lparr>process := p1,
                               software_breakpoints :=
                                 AList.update address (bp\<lparr>enabled := False\<rparr>)
                                   (software_breakpoints n)\<rparr>))
          else (Inr (), n))"

definition UnsetBreakpoint ::
  "('p, 'd) Process \<Rightarrow> 'p Native \<Rightarrow> addr \<Rightarrow> (error + unit) \<times> 'p Native" where
  "UnsetBreakpoint P n address =
     (case DisableSoftwareBreakpoint P n address of
        (Inl e, n1) \<Rightarrow> (Inl e, n1)
      | (Inr _, n1) \<Rightarrow>
          (Inr (), n1\<lparr>software_breakpoints :=
                        AList.delete address (software_breakpoints n1)\<rparr>))"

subsection \<open>Text access\<close>

definition TextSize :: "('p, 'd) Process \<Rightarrow> 'p Native \<Rightarrow> error + size_t" where
  "TextSize P n = proc_TextSize P (process n)"

text \<open>
  The loop of \<open>ReadText\<close> over the words the process returned: word \<open>i\<close> is replaced by
  the saved opcode of the breakpoint at \<open>i + address\<close> (a 64-bit sum), enabled or not.
\<close>

fun ReadText_loop ::
  "(addr \<times> SoftwareBreakpoint) list \<Rightarrow> addr \<Rightarrow> nat \<Rightarrow> string list \<Rightarrow> string list" where
  "ReadText_loop tbl address i [] = []"
| "ReadText_loop tbl address i (w # ws) =
     (case map_of tbl (of_nat i + address) of
        None \<Rightarrow> w
      | Some bp \<Rightarrow> data bp) # ReadText_loop tbl address (Suc i) ws"

definition ReadText ::
  "('p, 'd) Process \<Rightarrow> 'p Native \<Rightarrow> addr \<Rightarrow> size_t \<Rightarrow> error + string list" where
  "ReadText P n address amount =
     (case TextSize P n of
        Inl e \<Rightarrow> Inl e
      | Inr text_size \<Rightarrow>
          if address + amount > text_size
          then Inl (DebuggerError ''Reading text at range {}-{}, but text size is {}'')
          else (case proc_ReadText P (process n) address amount of
                  Inl e \<Rightarrow> Inl e
                | Inr txt \<Rightarrow> Inr (ReadText_loop (software_breakpoints n) address 0 txt)))"

text \<open>
  The loop of \<open>WriteText\<close> over the words to write: where a breakpoint is recorded at
  \<open>i + address\<close> (enabled or not), word \<open>i\<close> goes into its saved opcode and the trap
  opcode takes its place in what is sent to the process.
\<close>

fun WriteText_loop ::
  "addr \<Rightarrow> nat \<Rightarrow> string list \<Rightarrow> (addr \<times> SoftwareBreakpoint) list \<Rightarrow>
   string list \<times> (addr \<times> SoftwareBreakpoint) list" where
  "WriteText_loop address i [] tbl = ([], tbl)"
| "WriteText_loop address i (w # ws) tbl =
     (case map_of tbl (of_nat i + address) of
        None \<Rightarrow>
          (case WriteText_loop address (Suc i) ws tbl of
             (ws', tbl') \<Rightarrow> (w # ws', tbl'))
      | Some bp \<Rightarrow>
          (case WriteText_loop address (Suc i) ws
                  (AList.update (of_nat i + address) (bp\<lparr>data := w\<rparr>) tbl) of
             (ws', tbl') \<Rightarrow> (GetSoftwareBreakpointOpcode # ws', tbl')))"

definition WriteText ::
  "('p, 'd) Process \<Rightarrow> 'p Native \<Rightarrow> addr \<Rightarrow> string list \<Rightarrow> (error + unit) \<times> 'p Native" where
  "WriteText P n address txt =
     (case TextSize P n of
        Inl e \<Rightarrow> (Inl e, n)
      | Inr text_size \<Rightarrow>
          if address + of_nat (length txt) > text_size
          then (Inl (DebuggerError ''Writing text at range {}-{}, but text size is {}''), n)
          else (case WriteText_loop address 0 txt (software_breakpoints n) of
                  (txt', tbl') \<Rightarrow>
                    (case proc_WriteText P (process n) address txt' of
                       (r, p1) \<Rightarrow> (r, n\<lparr>process := p1, software_breakpoints := tbl'\<rparr>))))"

subsection \<open>Registers\<close>

definition GetRegisters ::
  "('p, 'd) Process \<Rightarrow> 'p Native \<Rightarrow> error + (string \<times> 64 word) list" where
  "GetRegisters P n = proc_FetchRegisters P (process n)"

definition GetRegister :: "('p, 'd) Process \<Rightarrow> 'p Native \<Rightarrow> string \<Rightarrow> error + 64 word" where
  "GetRegister P n name =
     (case proc_FetchRegisters P (process n) of
        Inl e \<Rightarrow> Inl e
      | Inr regs \<Rightarrow>
          (case map_of regs name of
             None \<Rightarrow> Inl (DebuggerError ''No register '{}' in target'')
           | Some v \<Rightarrow> Inr v))"

definition SetRegisters ::
  "('p, 'd) Process \<Rightarrow> 'p Native \<Rightarrow> (string \<times> 64 word) list \<Rightarrow> (error + unit) \<times> 'p Native" where
  "SetRegisters P n regs =
     (case proc_SetRegisters P (process n) regs of
        (r, p1) \<Rightarrow> (r, n\<lparr>process := p1\<rparr>))"

text \<open>\<open>GetIP\<close> returns the \<open>int64_t\<close> register as a \<open>uint64_t\<close>: the same 64 bits.\<close>

definition GetIP :: "('p, 'd) Process \<Rightarrow> 'p Native \<Rightarrow> error + addr" where
  "GetIP P n = GetRegister P n ''IP''"

subsection \<open>Debug events\<close>

definition MapReasonToEvent ::
  "('p, 'd) Process \<Rightarrow> 'd Arch \<Rightarrow> 'p Native \<Rightarrow> StopReason \<Rightarrow> error + DebugEvent" where
  "MapReasonToEvent P A n reason =
     (case reason of
        SoftwareBreakpointHit \<Rightarrow>
          (case GetIP P n of
             Inl e \<Rightarrow> Inl e
           | Inr ip \<Rightarrow> Inr (BreakpointHit Software (ip - 1)))
      | HardwareBreak \<Rightarrow>
          (case proc_FetchDebugRegisters P (process n) of
             Inl e \<Rightarrow> Inl e
           | Inr dbg_regs \<Rightarrow>
               (case arch_GetResponsibleRegister A dbg_regs of
                  Inl e \<Rightarrow> Inl e
                | Inr idx \<Rightarrow>
                    (case find (\<lambda>w. hw_reg (snd w) = idx) (watchpoints n) of
                       None \<Rightarrow> Inl AssertionFailed
                     | Some w \<Rightarrow> Inr (WatchpointTrigger Write (fst w)))))
      | Singlestep \<Rightarrow> Inr EvSinglestep
      | ExecutionEnd \<Rightarrow> Inr EvExecutionEnd
      | ExecutionBegin \<Rightarrow> Inr EvExecutionBegin)"

definition is_BreakpointHit :: "DebugEvent \<Rightarrow> bool" where
  "is_BreakpointHit ev = (case ev of BreakpointHit _ _ \<Rightarrow> True | _ \<Rightarrow> False)"

text \<open>
  The tail of \<open>WaitForDebugEvent\<close>, which both of its branches reach: for a
  \<open>BreakpointHit\<close> the register \<open>IP\<close> is read, decremented and written back.
\<close>

definition rewind_IP ::
  "('p, 'd) Process \<Rightarrow> 'p Native \<Rightarrow> DebugEvent \<Rightarrow> (error + DebugEvent) \<times> 'p Native" where
  "rewind_IP P n reason =
     (if is_BreakpointHit reason
      then (case GetRegisters P n of
              Inl e \<Rightarrow> (Inl e, n)
            | Inr regs \<Rightarrow>
                (case map_of regs ''IP'' of
                   None \<Rightarrow> (Inl StdOutOfRange, n)
                 | Some v \<Rightarrow>
                     (case SetRegisters P n (AList.update ''IP'' (v - 1) regs) of
                        (Inl e, n1) \<Rightarrow> (Inl e, n1)
                      | (Inr _, n1) \<Rightarrow> (Inr reason, n1))))
      else (Inr reason, n))"

definition WaitForDebugEvent ::
  "('p, 'd) Process \<Rightarrow> 'd Arch \<Rightarrow> 'p Native \<Rightarrow> (error + DebugEvent) \<times> 'p Native" where
  "WaitForDebugEvent P A n =
     (case cached_event n of
        Some ev \<Rightarrow> rewind_IP P (n\<lparr>cached_event := None\<rparr>) ev
      | None \<Rightarrow>
          (case proc_Wait P (process n) of
             (Inl e, p1) \<Rightarrow> (Inl e, n\<lparr>process := p1\<rparr>)
           | (Inr _, p1) \<Rightarrow>
               (case proc_GetReason P p1 of
                  Inl e \<Rightarrow> (Inl e, n\<lparr>process := p1\<rparr>)
                | Inr r \<Rightarrow>
                    (case MapReasonToEvent P A (n\<lparr>process := p1\<rparr>) r of
                       Inl e \<Rightarrow> (Inl e, n\<lparr>process := p1\<rparr>)
                     | Inr ev \<Rightarrow> rewind_IP P (n\<lparr>process := p1\<rparr>) ev))))"

definition DoRawSingleStep ::
  "('p, 'd) Process \<Rightarrow> 'd Arch \<Rightarrow> 'p Native \<Rightarrow> (error + DebugEvent) \<times> 'p Native" where
  "DoRawSingleStep P A n =
     (case proc_Singlestep P (process n) of
        (Inl e, p1) \<Rightarrow> (Inl e, n\<lparr>process := p1\<rparr>)
      | (Inr _, p1) \<Rightarrow> WaitForDebugEvent P A (n\<lparr>process := p1\<rparr>))"

subsection \<open>Single step and continue\<close>

text \<open>
  \<open>PerformSingleStep\<close> and \<open>StepOverBreakpoint\<close> call each other.  Every nested call of
  \<open>StepOverBreakpoint\<close> has disabled one more breakpoint, so the number of enabled
  breakpoints bounds the depth.
\<close>

definition enabled_count :: "(addr \<times> SoftwareBreakpoint) list \<Rightarrow> nat" where
  "enabled_count tbl = length (filter (\<lambda>kv. enabled (snd kv)) tbl)"

lemma enabled_count_update_disable:
  "map_of tbl k = Some bp \<Longrightarrow> enabled bp \<Longrightarrow>
   enabled_count (AList.update k (bp\<lparr>enabled := False\<rparr>) tbl) < enabled_count tbl"
  by (induction tbl) (auto simp: enabled_count_def split: if_splits)

definition disabled_at ::
  "addr \<Rightarrow> (addr \<times> SoftwareBreakpoint) list \<Rightarrow> (addr \<times> SoftwareBreakpoint) list" where
  "disabled_at address tbl =
     (case map_of tbl address of
        None \<Rightarrow> tbl
      | Some bp \<Rightarrow> if enabled bp then AList.update address (bp\<lparr>enabled := False\<rparr>) tbl
                   else tbl)"

lemma DisableSoftwareBreakpoint_table:
  "DisableSoftwareBreakpoint P n ip = (Inr u, n1) \<Longrightarrow>
   software_breakpoints n1 = disabled_at ip (software_breakpoints n)"
  by (auto simp: DisableSoftwareBreakpoint_def disabled_at_def
           split: prod.splits sum.splits option.splits if_splits)

function PerformSingleStep ::
    "('p, 'd) Process \<Rightarrow> 'd Arch \<Rightarrow> 'p Native \<Rightarrow> (error + DebugEvent) \<times> 'p Native"
  and StepOverBreakpoint ::
    "('p, 'd) Process \<Rightarrow> 'd Arch \<Rightarrow> 'p Native \<Rightarrow> addr \<Rightarrow> (error + DebugEvent) \<times> 'p Native"
where
  "PerformSingleStep P A n =
     (if \<not> arch_SupportHardwareLevelSingleStep A
      then (Inl (DebuggerError ''Singlestep is not supported for current architecture''), n)
      else (case GetIP P n of
              Inl e \<Rightarrow> (Inl e, n)
            | Inr ip \<Rightarrow>
                (case map_of (software_breakpoints n) ip of
                   None \<Rightarrow> DoRawSingleStep P A n
                 | Some bp \<Rightarrow>
                     if enabled bp then StepOverBreakpoint P A n ip
                     else DoRawSingleStep P A n)))"
| "StepOverBreakpoint P A n ip =
     (case DisableSoftwareBreakpoint P n ip of
        (Inl e, n1) \<Rightarrow> (Inl e, n1)
      | (Inr _, n1) \<Rightarrow>
          (case PerformSingleStep P A n1 of
             (Inl e, n2) \<Rightarrow> (Inl e, n2)
           | (Inr event, n2) \<Rightarrow>
               (case EnableSoftwareBreakpoint P n2 ip of
                  (Inl e, n3) \<Rightarrow> (Inl e, n3)
                | (Inr _, n3) \<Rightarrow> (Inr event, n3))))"
  by pat_completeness auto
termination PerformSingleStep
proof (relation "measure (\<lambda>x. case x of
          Inl (P, A, n) \<Rightarrow> 2 * enabled_count (software_breakpoints n) + 1
        | Inr (P, A, n, ip) \<Rightarrow>
            2 * enabled_count (disabled_at ip (software_breakpoints n)) + 2)", goal_cases)
  case 1
  show ?case by simp
next
  case (2 P A n ip bp)
  then show ?case
    using enabled_count_update_disable [of "software_breakpoints n" ip bp]
    by (simp add: disabled_at_def)
next
  case 3
  then show ?case
    by (auto dest!: DisableSoftwareBreakpoint_table [OF sym])
qed

definition ContinueExecution ::
  "('p, 'd) Process \<Rightarrow> 'd Arch \<Rightarrow> 'p Native \<Rightarrow> (error + unit) \<times> 'p Native" where
  "ContinueExecution P A n =
     (case GetIP P n of
        Inl e \<Rightarrow> (Inl e, n)
      | Inr ip \<Rightarrow>
          (let resume = (\<lambda>m. case proc_ResumeExecution P (process m) of
                                (r, p1) \<Rightarrow> (r, m\<lparr>process := p1\<rparr>)) in
           case map_of (software_breakpoints n) ip of
             None \<Rightarrow> resume n
           | Some bp \<Rightarrow>
               if \<not> enabled bp then resume n
               else (case StepOverBreakpoint P A n ip of
                       (Inl e, n1) \<Rightarrow> (Inl e, n1)
                     | (Inr event, n1) \<Rightarrow>
                         if event \<noteq> EvSinglestep
                         then (Inr (), n1\<lparr>cached_event := Some event\<rparr>)
                         else resume n1)))"

subsection \<open>Watchpoints\<close>

definition GetFreeDebugRegister :: "'d Arch \<Rightarrow> 'p Native \<Rightarrow> nat option" where
  "GetFreeDebugRegister A n =
     find (\<lambda>i. find (\<lambda>w. hw_reg (snd w) = i) (watchpoints n) = None)
          [0 ..< arch_DebugRegistersCount A]"

definition SetWatchpointWrite ::
  "('p, 'd) Process \<Rightarrow> 'd Arch \<Rightarrow> 'p Native \<Rightarrow> addr \<Rightarrow> (error + unit) \<times> 'p Native" where
  "SetWatchpointWrite P A n address =
     (if \<not> arch_SupportsHardwareWatchpoints A
      then (Inl (DebuggerError ''This architecture does not support watchpoints''), n)
      else if map_of (watchpoints n) address \<noteq> None
      then (Inl (DebuggerError ''A watchpoint is already set on that address.''), n)
      else (case GetFreeDebugRegister A n of
              None \<Rightarrow> (Inl (DebuggerError ''Maximum amount of watchpoints has been set''), n)
            | Some idx \<Rightarrow>
                (case proc_FetchDebugRegisters P (process n) of
                   Inl e \<Rightarrow> (Inl e, n)
                 | Inr dbg_regs \<Rightarrow>
                     (case arch_SetDebugRegister A idx address dbg_regs of
                        Inl e \<Rightarrow> (Inl e, n)
                      | Inr dbg_regs1 \<Rightarrow>
                          (case arch_ActivateDebugRegister A idx dbg_regs1 of
                             Inl e \<Rightarrow> (Inl e, n)
                           | Inr dbg_regs2 \<Rightarrow>
                               (case proc_SetDebugRegisters P (process n) dbg_regs2 of
                                  (Inl e, p1) \<Rightarrow> (Inl e, n\<lparr>process := p1\<rparr>)
                                | (Inr _, p1) \<Rightarrow>
                                    (Inr (),
                                     n\<lparr>process := p1,
                                       watchpoints :=
                                         map_emplace address \<lparr>wtype = Write, hw_reg = idx\<rparr>
                                           (watchpoints n)\<rparr>)))))))"

text \<open>
  \<open>RemoveWatchpoint\<close> fetches the debug registers into a local, deactivates the register
  in that local and erases the table entry; the local is then dropped.
\<close>

definition RemoveWatchpoint ::
  "('p, 'd) Process \<Rightarrow> 'd Arch \<Rightarrow> 'p Native \<Rightarrow> addr \<Rightarrow> (error + unit) \<times> 'p Native" where
  "RemoveWatchpoint P A n address =
     (case map_of (watchpoints n) address of
        None \<Rightarrow> (Inl (DebuggerError ''A watchpoint is already set on that address.''), n)
      | Some wp \<Rightarrow>
          (case proc_FetchDebugRegisters P (process n) of
             Inl e \<Rightarrow> (Inl e, n)
           | Inr dbg_regs \<Rightarrow>
               (case arch_DeactivateDebugRegister A (hw_reg wp) dbg_regs of
                  Inl e \<Rightarrow> (Inl e, n)
                | Inr dbg_regs1 \<Rightarrow>
                    (Inr (), n\<lparr>watchpoints := AList.delete address (watchpoints n)\<rparr>))))"

subsection \<open>A process to run the control layer against\<close>

text \<open>
  Modelled from the spec: the concrete process (\<open>T86Process\<close>, reached over TCP) and the
  execution engine are not among the sources.  \<open>SimProcess\<close> implements the Process
  Interface contract of the spec (4.7): \<open>read_text\<close> returns \<open>n\<close> consecutive instruction
  words and fails out of bounds, \<open>write_text\<close> stores the words and fails out of bounds,
  the register maps are read and written whole, \<open>text_size\<close> is the bound for text
  addresses.  Its engine is the smallest one that can stop for every reason: instructions
  run in address order, \<open>BKPT\<close> stops with \<open>SoftwareBreakpointHit\<close> after \<open>IP\<close> has
  moved past it, \<open>HALT\<close> and the end of the text stop with \<open>ExecutionEnd\<close>, and a
  single step over any other instruction stops with \<open>Singlestep\<close>.
\<close>

datatype SimRequest = ReqNone | ReqStep | ReqResume

record SimProcess =
  sim_text :: "string list"
  sim_regs :: "(string \<times> 64 word) list"
  sim_dbg :: "(addr \<times> bool) list"
  sim_reason :: StopReason
  sim_request :: SimRequest

definition sim_oob :: error where
  "sim_oob = DebuggerError ''text access out of bounds''"

definition sim_ReadText :: "SimProcess \<Rightarrow> addr \<Rightarrow> size_t \<Rightarrow> error + string list" where
  "sim_ReadText p address amount =
     (if unat address + unat amount \<le> length (sim_text p)
      then Inr (take (unat amount) (drop (unat address) (sim_text p)))
      else Inl sim_oob)"

definition sim_WriteText ::
  "SimProcess \<Rightarrow> addr \<Rightarrow> string list \<Rightarrow> (error + unit) \<times> SimProcess" where
  "sim_WriteText p address ws =
     (if unat address + length ws \<le> length (sim_text p)
      then (Inr (),
            p\<lparr>sim_text := take (unat address) (sim_text p) @ ws @
                             drop (unat address + length ws) (sim_text p)\<rparr>)
      else (Inl sim_oob, p))"

fun sim_run :: "string list \<Rightarrow> 64 word \<Rightarrow> StopReason \<times> 64 word" where
  "sim_run [] ip = (ExecutionEnd, ip)"
| "sim_run (w # ws) ip =
     (if w = ''BKPT'' then (SoftwareBreakpointHit, ip + 1)
      else if w = ''HALT'' then (ExecutionEnd, ip)
      else sim_run ws (ip + 1))"

definition sim_step :: "string list \<Rightarrow> 64 word \<Rightarrow> StopReason \<times> 64 word" where
  "sim_step ws ip =
     (case ws of
        [] \<Rightarrow> (ExecutionEnd, ip)
      | w # _ \<Rightarrow>
          if w = ''BKPT'' then (SoftwareBreakpointHit, ip + 1)
          else if w = ''HALT'' then (ExecutionEnd, ip)
          else (Singlestep, ip + 1))"

definition sim_Wait :: "SimProcess \<Rightarrow> (error + unit) \<times> SimProcess" where
  "sim_Wait p =
     (case map_of (sim_regs p) ''IP'' of
        None \<Rightarrow> (Inl (DebuggerError ''no IP''), p)
      | Some ip \<Rightarrow>
          (case sim_request p of
             ReqNone \<Rightarrow> (Inr (), p)
           | ReqStep \<Rightarrow>
               (case sim_step (drop (unat ip) (sim_text p)) ip of
                  (r, ip') \<Rightarrow>
                    (Inr (), p\<lparr>sim_regs := AList.update ''IP'' ip' (sim_regs p),
                               sim_reason := r, sim_request := ReqNone\<rparr>))
           | ReqResume \<Rightarrow>
               (case sim_run (drop (unat ip) (sim_text p)) ip of
                  (r, ip') \<Rightarrow>
                    (Inr (), p\<lparr>sim_regs := AList.update ''IP'' ip' (sim_regs p),
                               sim_reason := r, sim_request := ReqNone\<rparr>))))"

definition sim :: "(SimProcess, (addr \<times> bool) list) Process" where
  "sim = \<lparr>
     proc_ReadText = sim_ReadText,
     proc_WriteText = sim_WriteText,
     proc_TextSize = (\<lambda>p. Inr (of_nat (length (sim_text p)))),
     proc_FetchRegisters = (\<lambda>p. Inr (sim_regs p)),
     proc_SetRegisters = (\<lambda>p regs. (Inr (), p\<lparr>sim_regs := regs\<rparr>)),
     proc_FetchDebugRegisters = (\<lambda>p. Inr (sim_dbg p)),
     proc_SetDebugRegisters = (\<lambda>p d. (Inr (), p\<lparr>sim_dbg := d\<rparr>)),
     proc_Wait = sim_Wait,
     proc_GetReason = (\<lambda>p. Inr (sim_reason p)),
     proc_Singlestep = (\<lambda>p. (Inr (), p\<lparr>sim_request := ReqStep\<rparr>)),
     proc_ResumeExecution = (\<lambda>p. (Inr (), p\<lparr>sim_request := ReqResume\<rparr>)) \<rparr>"

text \<open>
  Modelled from the spec: a debug-register file for \<open>SimProcess\<close>, one watched address
  and one activation flag per register (Arch.h is not among the sources).
\<close>

definition sim_arch :: "(addr \<times> bool) list Arch" where
  "sim_arch = \<lparr>
     arch_SupportHardwareLevelSingleStep = True,
     arch_SupportsHardwareWatchpoints = True,
     arch_DebugRegistersCount = 4,
     arch_GetResponsibleRegister =
       (\<lambda>d. case find (\<lambda>i. snd (d ! i)) [0 ..< length d] of
               None \<Rightarrow> Inl (StdRuntimeError ''no active debug register'')
             | Some i \<Rightarrow> Inr i),
     arch_SetDebugRegister =
       (\<lambda>idx a d. if idx < length d then Inr (d[idx := (a, snd (d ! idx))])
                   else Inl StdOutOfRange),
     arch_ActivateDebugRegister =
       (\<lambda>idx d. if idx < length d then Inr (d[idx := (fst (d ! idx), True)])
                 else Inl StdOutOfRange),
     arch_DeactivateDebugRegister =
       (\<lambda>idx d. if idx < length d then Inr (d[idx := (fst (d ! idx), False)])
                 else Inl StdOutOfRange) \<rparr>"

text \<open>A process whose text cannot be written: \<open>write_text\<close> reports success and stores nothing.\<close>

definition sim_readonly :: "(SimProcess, (addr \<times> bool) list) Process" where
  "sim_readonly = sim\<lparr>proc_WriteText := (\<lambda>p address ws. (Inr (), p))\<rparr>"

definition sim_init :: "string list \<Rightarrow> SimProcess" where
  "sim_init txt = \<lparr>sim_text = txt, sim_regs = [(''IP'', 0)],
                   sim_dbg = replicate 4 (0, False),
                   sim_reason = ExecutionBegin, sim_request = ReqNone\<rparr>"

definition Native_init :: "'p \<Rightarrow> 'p Native" where
  "Native_init p = \<lparr>process = p, software_breakpoints = [], watchpoints = [],
                    cached_event = None\<rparr>"

section \<open>Properties of the native control layer\<close>

subsection \<open>Setting a breakpoint\<close>

text \<open>
  C9.  \<open>SetBreakpoint\<close> either throws, and then the breakpoint table is the one before
  the call, or completes: the address had no breakpoint, the table gained the record of
  the word read at the address, enabled, and the process reads the trap opcode back at
  the address.  In particular, when the word read back after the trap was written is not
  the trap opcode, the call throws a \<open>DebuggerError\<close> and only the process has changed.
  This holds for every process, whatever its reads and writes do.
\<close>

theorem SetBreakpoint_atomic:
  "(case SetBreakpoint P n address of
      (Inl e, n1) \<Rightarrow> software_breakpoints n1 = software_breakpoints n
    | (Inr u, n1) \<Rightarrow>
        map_of (software_breakpoints n) address = None \<and>
        (\<exists>backup bs.
            proc_ReadText P (process n) address 1 = Inr (backup # bs) \<and>
            software_breakpoints n1 =
              map_emplace address \<lparr>data = backup, enabled = True\<rparr> (software_breakpoints n)) \<and>
        (\<exists>ws. proc_ReadText P (process n1) address 1 =
                Inr (GetSoftwareBreakpointOpcode # ws))) \<and>
   (map_of (software_breakpoints n) address = None \<longrightarrow>
    proc_ReadText P (process n) address 1 = Inr (b # bs) \<longrightarrow>
    proc_WriteText P (process n) address [GetSoftwareBreakpointOpcode] = (Inr (), p1) \<longrightarrow>
    proc_ReadText P p1 address 1 = Inr (w # ws) \<longrightarrow>
    w \<noteq> GetSoftwareBreakpointOpcode \<longrightarrow>
    (\<exists>msg. SetBreakpoint P n address = (Inl (DebuggerError msg), n\<lparr>process := p1\<rparr>)))"
proof (intro conjI impI)
  show "case SetBreakpoint P n address of
      (Inl e, n1) \<Rightarrow> software_breakpoints n1 = software_breakpoints n
    | (Inr u, n1) \<Rightarrow>
        map_of (software_breakpoints n) address = None \<and>
        (\<exists>backup bs.
            proc_ReadText P (process n) address 1 = Inr (backup # bs) \<and>
            software_breakpoints n1 =
              map_emplace address \<lparr>data = backup, enabled = True\<rparr> (software_breakpoints n)) \<and>
        (\<exists>ws. proc_ReadText P (process n1) address 1 =
                Inr (GetSoftwareBreakpointOpcode # ws))"
    by (auto simp: SetBreakpoint_def CreateSoftwareBreakpoint_def at0_def Let_def
             split: prod.splits sum.splits list.splits if_splits)
next
  assume "map_of (software_breakpoints n) address = None"
    and "proc_ReadText P (process n) address 1 = Inr (b # bs)"
    and "proc_WriteText P (process n) address [GetSoftwareBreakpointOpcode] = (Inr (), p1)"
    and "proc_ReadText P p1 address 1 = Inr (w # ws)"
    and "w \<noteq> GetSoftwareBreakpointOpcode"
  then show "\<exists>msg. SetBreakpoint P n address =
                (Inl (DebuggerError msg), n\<lparr>process := p1\<rparr>)"
    by (simp add: SetBreakpoint_def CreateSoftwareBreakpoint_def at0_def Let_def)
qed

theorem SetBreakpoint_atomic_witness:
  "map_of (software_breakpoints (Native_init (sim_init [''NOP'']))) (0 :: addr) = None \<and>
   proc_ReadText sim_readonly (process (Native_init (sim_init [''NOP'']))) 0 1 = Inr [''NOP''] \<and>
   proc_WriteText sim_readonly (process (Native_init (sim_init [''NOP''])))
       0 [GetSoftwareBreakpointOpcode] = (Inr (), sim_init [''NOP'']) \<and>
   ''NOP'' \<noteq> GetSoftwareBreakpointOpcode \<and>
   (\<exists>msg. SetBreakpoint sim_readonly (Native_init (sim_init [''NOP''])) 0 =
            (Inl (DebuggerError msg), Native_init (sim_init [''NOP''])))"
proof -
  let ?n = "Native_init (sim_init [''NOP''])"
  have h1: "map_of (software_breakpoints ?n) (0 :: addr) = None"
    by (simp add: Native_init_def)
  have h2: "proc_ReadText sim_readonly (process ?n) 0 1 = Inr [''NOP'']"
    by (simp add: sim_readonly_def sim_def sim_ReadText_def Native_init_def sim_init_def)
  have h3: "proc_WriteText sim_readonly (process ?n) 0 [GetSoftwareBreakpointOpcode] =
              (Inr (), sim_init [''NOP''])"
    by (simp add: sim_readonly_def Native_init_def)
  have h4: "proc_ReadText sim_readonly (sim_init [''NOP'']) 0 1 = Inr [''NOP'']"
    using h2 by (simp add: Native_init_def)
  have h5: "''NOP'' \<noteq> GetSoftwareBreakpointOpcode"
    by (simp add: GetSoftwareBreakpointOpcode_def)
  have "?n\<lparr>process := sim_init [''NOP'']\<rparr> = ?n"
    by (simp add: Native_init_def)
  with SetBreakpoint_atomic [where P = sim_readonly and n = ?n and address = 0
      and b = "''NOP''" and bs = "[]" and ?p1.0 = "sim_init [''NOP'']" and w = "''NOP''"
      and ws = "[]"]
    h1 h2 h3 h4 h5
  show ?thesis by simp
qed

subsection \<open>Removing a watchpoint\<close>

text \<open>
  C10.  \<open>RemoveWatchpoint\<close> never changes the process: whether it throws or returns, the
  process state after the call is the one before it.  For an address with a watchpoint
  (when fetching the debug registers and deactivating the register in the fetched copy
  succeed) the call returns, the watchpoint is erased from the table, nothing else of
  \<open>Native\<close> changes, and the debug registers the process reports are the ones it
  reported before the call.
\<close>

theorem RemoveWatchpoint_keeps_debug_registers:
  "process (snd (RemoveWatchpoint P A n address)) = process n \<and>
   (map_of (watchpoints n) address = Some wp \<longrightarrow>
    proc_FetchDebugRegisters P (process n) = Inr d \<longrightarrow>
    arch_DeactivateDebugRegister A (hw_reg wp) d = Inr d1 \<longrightarrow>
    RemoveWatchpoint P A n address =
      (Inr (), n\<lparr>watchpoints := AList.delete address (watchpoints n)\<rparr>) \<and>
    map_of (watchpoints (snd (RemoveWatchpoint P A n address))) address = None \<and>
    proc_FetchDebugRegisters P (process (snd (RemoveWatchpoint P A n address))) = Inr d)"
  by (simp add: RemoveWatchpoint_def delete_conv split: option.splits sum.splits)

definition watch16 :: "SimProcess Native" where
  "watch16 = snd (SetWatchpointWrite sim sim_arch (Native_init (sim_init [''NOP'', ''HALT''])) 16)"

theorem RemoveWatchpoint_keeps_debug_registers_witness:
  "map_of (watchpoints watch16) 16 = Some \<lparr>wtype = Write, hw_reg = 0\<rparr> \<and>
   proc_FetchDebugRegisters sim (process watch16) =
     Inr [(16, True), (0, False), (0, False), (0, False)] \<and>
   arch_DeactivateDebugRegister sim_arch 0 [(16, True), (0, False), (0, False), (0, False)] =
     Inr [(16, False), (0, False), (0, False), (0, False)] \<and>
   fst (RemoveWatchpoint sim sim_arch watch16 16) = Inr () \<and>
   watchpoints (snd (RemoveWatchpoint sim sim_arch watch16 16)) = [] \<and>
   proc_FetchDebugRegisters sim (process (snd (RemoveWatchpoint sim sim_arch watch16 16))) =
     Inr [(16, True), (0, False), (0, False), (0, False)]"
proof -
  have h1: "map_of (watchpoints watch16) 16 = Some \<lparr>wtype = Write, hw_reg = 0\<rparr>"
    by code_simp
  have h2: "proc_FetchDebugRegisters sim (process watch16) =
              Inr [(16, True), (0, False), (0, False), (0, False)]"
    by code_simp
  have h3: "arch_DeactivateDebugRegister sim_arch (hw_reg \<lparr>wtype = Write, hw_reg = 0\<rparr>)
              [(16, True), (0, False), (0, False), (0, False)] =
            Inr [(16, False), (0, False), (0, False), (0, False)]"
    by code_simp
  have h4: "AList.delete 16 (watchpoints watch16) = []"
    by code_simp
  from RemoveWatchpoint_keeps_debug_registers [where P = sim and A = sim_arch
      and n = watch16 and address = 16 and wp = "\<lparr>wtype = Write, hw_reg = 0\<rparr>"
      and d = "[(16, True), (0, False), (0, False), (0, False)]"
      and ?d1.0 = "[(16, False), (0, False), (0, False), (0, False)]"] h1 h2 h3 h4
  show ?thesis by simp
qed

subsection \<open>Breakpoint events and the instruction pointer\<close>

text \<open>
  An event obtained by waiting on the process: \<open>MapReasonToEvent\<close> reports \<open>IP - 1\<close> and
  \<open>WaitForDebugEvent\<close> then moves \<open>IP\<close> back by one, so the two agree.
\<close>

lemma MapReasonToEvent_BreakpointHit:
  assumes "MapReasonToEvent P A n r = Inr (BreakpointHit k a)"
  shows "\<exists>ip. GetIP P n = Inr ip \<and> a = ip - 1"
  using assms
  by (cases r) (auto simp: MapReasonToEvent_def split: sum.splits option.splits)

lemma rewind_IP_sim:
  assumes "rewind_IP sim n (BreakpointHit k a) = (Inr ev, n1)"
    and "GetIP sim n = Inr ip"
  shows "GetIP sim n1 = Inr (ip - 1)"
  using assms
  by (auto simp: rewind_IP_def is_BreakpointHit_def GetIP_def GetRegister_def GetRegisters_def
        SetRegisters_def sim_def update_conv' split: option.splits)

lemma WaitForDebugEvent_wait_path:
  assumes "cached_event n = None"
    and "WaitForDebugEvent sim A n = (Inr (BreakpointHit k a), n1)"
  shows "GetIP sim n1 = Inr a"
proof -
  obtain u p1 where w: "proc_Wait sim (process n) = (u, p1)"
    by (cases "proc_Wait sim (process n)")
  let ?m = "n\<lparr>process := p1\<rparr>"
  from assms w obtain r ev where
      r: "proc_GetReason sim p1 = Inr r"
    and ev: "MapReasonToEvent sim A ?m r = Inr ev"
    and rw: "rewind_IP sim ?m ev = (Inr (BreakpointHit k a), n1)"
    by (auto simp: WaitForDebugEvent_def split: sum.splits)
  from rw have "ev = BreakpointHit k a"
    by (auto simp: rewind_IP_def split: if_splits sum.splits option.splits prod.splits)
  with ev rw MapReasonToEvent_BreakpointHit [of sim A ?m r k a] rewind_IP_sim [of ?m k a _ n1]
  show ?thesis by auto
qed

text \<open>
  The program \<open>NOP; BKPT; HALT\<close> with a breakpoint set at address 1, started at
  address 0: the states after the first continue (\<open>hit_n2\<close>), after the wait that
  follows it (\<open>hit_n3\<close>) and after the second continue (\<open>hit_n4\<close>).
\<close>

definition hit_n1 :: "SimProcess Native" where
  "hit_n1 = snd (SetBreakpoint sim (Native_init (sim_init [''NOP'', ''BKPT'', ''HALT''])) 1)"

definition hit_n2 :: "SimProcess Native" where
  "hit_n2 = snd (ContinueExecution sim sim_arch hit_n1)"

definition hit_n3 :: "SimProcess Native" where
  "hit_n3 = snd (WaitForDebugEvent sim sim_arch hit_n2)"

definition hit_n4 :: "SimProcess Native" where
  "hit_n4 = snd (ContinueExecution sim sim_arch hit_n3)"

text \<open>
  C1.  The first continue and wait stop at the breakpoint with
  \<open>BreakpointHit{Software, 1}\<close> and \<open>IP = 1\<close>.  The second continue steps over the
  breakpoint; the step executes the program's own \<open>BKPT\<close>, so the event
  \<open>BreakpointHit{Software, 1}\<close> is cached, \<open>IP\<close> already moved back to 1 by the wait
  inside the step.  The wait that dequeues the cached event moves \<open>IP\<close> back once more:
  it returns \<open>BreakpointHit{Software, 1}\<close> and leaves \<open>IP = 0\<close>.
\<close>

theorem WaitForDebugEvent_cached_hit_rewinds_twice:
  "fst (WaitForDebugEvent sim sim_arch hit_n2) = Inr (BreakpointHit Software 1) \<and>
   GetIP sim hit_n3 = Inr 1 \<and>
   cached_event hit_n4 = Some (BreakpointHit Software 1) \<and>
   GetIP sim hit_n4 = Inr 1 \<and>
   fst (WaitForDebugEvent sim sim_arch hit_n4) = Inr (BreakpointHit Software 1) \<and>
   GetIP sim (snd (WaitForDebugEvent sim sim_arch hit_n4)) = Inr 0"
proof (intro conjI)
  show "fst (WaitForDebugEvent sim sim_arch hit_n2) = Inr (BreakpointHit Software 1)"
    by code_simp
  show "GetIP sim hit_n3 = Inr 1"
    by code_simp
  show "cached_event hit_n4 = Some (BreakpointHit Software 1)"
    by code_simp
  show "GetIP sim hit_n4 = Inr 1"
    by code_simp
  show "fst (WaitForDebugEvent sim sim_arch hit_n4) = Inr (BreakpointHit Software 1)"
    by code_simp
  show "GetIP sim (snd (WaitForDebugEvent sim sim_arch hit_n4)) = Inr 0"
    by code_simp
qed

section \<open>Text access through breakpoints\<close>

subsection \<open>64-bit address arithmetic\<close>

lemma unat_of_nat64:
  "i < 2 ^ 64 \<Longrightarrow> unat (of_nat i :: addr) = i"
  by (simp add: unat_of_nat)

lemma unat_of_nat_add64:
  fixes A :: addr
  assumes "i + unat A < 2 ^ 64"
  shows "unat (of_nat i + A) = i + unat A"
proof -
  from assms have "i < 2 ^ 64" by simp
  then have "unat (of_nat i :: addr) = i" by (rule unat_of_nat64)
  moreover from this assms have "unat (of_nat i :: addr) + unat A < 2 ^ LENGTH(64)" by simp
  ultimately show ?thesis using unat_add_lem [of "of_nat i :: addr" A] by simp
qed

lemma in_range_check64:
  fixes A :: addr
  assumes "unat A + n \<le> m" "m < 2 ^ 64"
  shows "\<not> (A + of_nat n > of_nat m)"
proof -
  have "unat (of_nat n + A) = n + unat A"
    using assms by (intro unat_of_nat_add64) simp
  moreover have "unat (of_nat m :: addr) = m"
    using assms by (simp add: unat_of_nat64)
  ultimately show ?thesis using assms by (simp add: word_less_nat_alt add.commute)
qed

subsection \<open>The operations on the simulated process\<close>

lemma map_of_map_emplace:
  "map_of t k = None \<Longrightarrow> map_of (map_emplace k v t) = (map_of t)(k \<mapsto> v)"
  by (induction t) (auto split: if_splits)

lemma take1_drop: "a < length t \<Longrightarrow> take (Suc 0) (drop a t) = [t ! a]"
  by (simp add: take_Suc_conv_app_nth)

lemma sim_ReadText_1:
  "sim_ReadText p A 1 =
     (if unat A < length (sim_text p) then Inr [sim_text p ! unat A] else Inl sim_oob)"
  by (auto simp: sim_ReadText_def take1_drop)

lemma sim_WriteText_1:
  "sim_WriteText p A [w] =
     (if unat A < length (sim_text p)
      then (Inr (), p\<lparr>sim_text := (sim_text p)[unat A := w]\<rparr>) else (Inl sim_oob, p))"
  by (auto simp: sim_WriteText_def upd_conv_take_nth_drop)

lemma CreateSoftwareBreakpoint_sim:
  "CreateSoftwareBreakpoint sim n A =
     (if unat A < length (sim_text (process n))
      then (Inr \<lparr>data = sim_text (process n) ! unat A, enabled = True\<rparr>,
            n\<lparr>process := (process n)\<lparr>sim_text :=
                 (sim_text (process n))[unat A := GetSoftwareBreakpointOpcode]\<rparr>\<rparr>)
      else (Inl sim_oob, n))"
  by (simp add: CreateSoftwareBreakpoint_def sim_def sim_ReadText_1 sim_WriteText_1 at0_def)

lemma SetBreakpoint_sim:
  "SetBreakpoint sim n A =
     (if map_of (software_breakpoints n) A \<noteq> None
      then (Inl (DebuggerError ''Breakpoint at {} is already set!''), n)
      else if unat A < length (sim_text (process n))
      then (Inr (),
            n\<lparr>process := (process n)\<lparr>sim_text :=
                 (sim_text (process n))[unat A := GetSoftwareBreakpointOpcode]\<rparr>,
              software_breakpoints :=
                 map_emplace A \<lparr>data = sim_text (process n) ! unat A, enabled = True\<rparr>
                   (software_breakpoints n)\<rparr>)
      else (Inl sim_oob, n))"
  by (simp add: SetBreakpoint_def CreateSoftwareBreakpoint_sim)

lemma EnableSoftwareBreakpoint_sim:
  "EnableSoftwareBreakpoint sim n A =
     (case map_of (software_breakpoints n) A of
        None \<Rightarrow> (Inl (DebuggerError ''No breakpoint at address {}!''), n)
      | Some bp \<Rightarrow>
          if enabled bp then (Inr (), n)
          else if unat A < length (sim_text (process n))
          then (Inr (),
                n\<lparr>process := (process n)\<lparr>sim_text :=
                     (sim_text (process n))[unat A := GetSoftwareBreakpointOpcode]\<rparr>,
                  software_breakpoints :=
                     AList.update A \<lparr>data = sim_text (process n) ! unat A, enabled = True\<rparr>
                       (software_breakpoints n)\<rparr>)
          else (Inl sim_oob, n))"
  by (simp add: EnableSoftwareBreakpoint_def CreateSoftwareBreakpoint_sim split: option.splits)

lemma DisableSoftwareBreakpoint_sim:
  "DisableSoftwareBreakpoint sim n A =
     (case map_of (software_breakpoints n) A of
        None \<Rightarrow> (Inl (DebuggerError ''No breakpoint at address {}!''), n)
      | Some bp \<Rightarrow>
          if \<not> enabled bp then (Inr (), n)
          else if unat A < length (sim_text (process n))
          then (Inr (),
                n\<lparr>process := (process n)\<lparr>sim_text :=
                     (sim_text (process n))[unat A := data bp]\<rparr>,
                  software_breakpoints :=
                     AList.update A (bp\<lparr>enabled := False\<rparr>) (software_breakpoints n)\<rparr>)
          else (Inl sim_oob, n))"
  by (simp add: DisableSoftwareBreakpoint_def sim_def sim_WriteText_1 split: option.splits)

subsection \<open>The loops of ReadText and WriteText\<close>

text \<open>
  The table after the loop of \<open>WriteText\<close> over the words \<open>ws\<close> starting at index \<open>j\<close>:
  every record in the written range holds the word written at its address.
\<close>

definition wmap ::
  "addr \<Rightarrow> nat \<Rightarrow> string list \<Rightarrow> (addr \<rightharpoonup> SoftwareBreakpoint) \<Rightarrow> (addr \<rightharpoonup> SoftwareBreakpoint)" where
  "wmap A j ws m =
     (\<lambda>k. case m k of
            None \<Rightarrow> None
          | Some bp \<Rightarrow>
              if unat A + j \<le> unat k \<and> unat k < unat A + j + length ws
              then Some (bp\<lparr>data := ws ! (unat k - unat A - j)\<rparr>)
              else Some bp)"

lemma fst_WriteText_loop_Cons:
  "fst (WriteText_loop A j (w # ws) tbl) =
     (case map_of tbl (of_nat j + A) of
        None \<Rightarrow> w # fst (WriteText_loop A (Suc j) ws tbl)
      | Some bp \<Rightarrow>
          GetSoftwareBreakpointOpcode #
          fst (WriteText_loop A (Suc j) ws (AList.update (of_nat j + A) (bp\<lparr>data := w\<rparr>) tbl)))"
  by (simp split: option.splits prod.splits)

lemma snd_WriteText_loop_Cons:
  "snd (WriteText_loop A j (w # ws) tbl) =
     (case map_of tbl (of_nat j + A) of
        None \<Rightarrow> snd (WriteText_loop A (Suc j) ws tbl)
      | Some bp \<Rightarrow>
          snd (WriteText_loop A (Suc j) ws (AList.update (of_nat j + A) (bp\<lparr>data := w\<rparr>) tbl)))"
  by (simp split: option.splits prod.splits)

lemma WriteText_loop_length:
  "length (fst (WriteText_loop A j ws tbl)) = length ws"
proof (induction ws arbitrary: j tbl)
  case Nil
  show ?case by simp
next
  case (Cons w ws)
  show ?case
    by (simp only: fst_WriteText_loop_Cons) (simp add: Cons.IH split: option.splits)
qed

lemma WriteText_loop_None:
  "(map_of (snd (WriteText_loop A j ws tbl)) k = None) = (map_of tbl k = None)"
proof (induction ws arbitrary: j tbl)
  case Nil
  show ?case by simp
next
  case (Cons w ws)
  show ?case
    by (simp only: snd_WriteText_loop_Cons)
       (simp add: Cons.IH update_conv' split: option.splits)
qed

lemma WriteText_loop_enabled:
  "map_option enabled (map_of (snd (WriteText_loop A j ws tbl)) k) =
   map_option enabled (map_of tbl k)"
proof (induction ws arbitrary: j tbl)
  case Nil
  show ?case by simp
next
  case (Cons w ws)
  show ?case
    by (simp only: snd_WriteText_loop_Cons)
       (simp add: Cons.IH update_conv' split: option.splits)
qed

lemma WriteText_loop_words:
  "i < length ws \<Longrightarrow>
   fst (WriteText_loop A j ws tbl) ! i =
     (if map_of tbl (of_nat (j + i) + A) = None then ws ! i else GetSoftwareBreakpointOpcode)"
proof (induction ws arbitrary: i j tbl)
  case Nil
  then show ?case by simp
next
  case (Cons w ws)
  show ?case
  proof (cases i)
    case 0
    then show ?thesis
      by (simp only: fst_WriteText_loop_Cons) (simp split: option.splits)
  next
    case (Suc i')
    with Cons.prems have "i' < length ws" by simp
    from Cons.IH [OF this, of "Suc j"] Suc show ?thesis
      by (simp only: fst_WriteText_loop_Cons)
         (auto simp: update_conv' simp del: of_nat_add of_nat_Suc split: option.splits)
  qed
qed

lemma WriteText_loop_map:
  "j + length ws + unat A \<le> 2 ^ 64 \<Longrightarrow>
   map_of (snd (WriteText_loop A j ws tbl)) = wmap A j ws (map_of tbl)"
proof (induction ws arbitrary: j tbl)
  case Nil
  then show ?case by (auto simp: wmap_def fun_eq_iff split: option.splits)
next
  case (Cons w ws)
  have k0: "unat (of_nat j + A) = j + unat A"
    using Cons.prems by (intro unat_of_nat_add64) simp
  have ih: "map_of (snd (WriteText_loop A (Suc j) ws t)) = wmap A (Suc j) ws (map_of t)" for t
    using Cons.prems by (intro Cons.IH) simp
  show ?case
  proof (cases "map_of tbl (of_nat j + A)")
    case None
    have "wmap A (Suc j) ws (map_of tbl) k = wmap A j (w # ws) (map_of tbl) k" for k
    proof (cases "k = of_nat j + A")
      case True
      with None show ?thesis by (simp add: wmap_def)
    next
      case False
      then have "unat k \<noteq> j + unat A" using k0 by (auto simp: word_unat_eq_iff)
      then show ?thesis
        by (auto simp: wmap_def nth_Cons' split: option.splits)
    qed
    with None ih show ?thesis
      by (simp only: snd_WriteText_loop_Cons) (simp add: fun_eq_iff)
  next
    case (Some bp)
    have "wmap A (Suc j) ws ((map_of tbl)(of_nat j + A \<mapsto> bp\<lparr>data := w\<rparr>)) k =
          wmap A j (w # ws) (map_of tbl) k" for k
    proof (cases "k = of_nat j + A")
      case True
      with Some k0 show ?thesis by (simp add: wmap_def)
    next
      case False
      then have "unat k \<noteq> j + unat A" using k0 by (auto simp: word_unat_eq_iff)
      with False show ?thesis
        by (auto simp: wmap_def nth_Cons' split: option.splits)
    qed
    with Some ih show ?thesis
      by (simp only: snd_WriteText_loop_Cons) (simp add: fun_eq_iff update_conv')
  qed
qed

lemma ReadText_loop_length: "length (ReadText_loop tbl A j ws) = length ws"
  by (induction ws arbitrary: j) auto

lemma ReadText_loop_nth:
  "i < length ws \<Longrightarrow>
   ReadText_loop tbl A j ws ! i =
     (case map_of tbl (of_nat (j + i) + A) of None \<Rightarrow> ws ! i | Some bp \<Rightarrow> data bp)"
proof (induction ws arbitrary: i j)
  case Nil
  then show ?case by simp
next
  case (Cons w ws)
  show ?case
  proof (cases i)
    case 0
    then show ?thesis by (simp split: option.splits)
  next
    case (Suc i')
    with Cons.prems have "i' < length ws" by simp
    from Cons.IH [OF this, of "Suc j"] Suc show ?thesis
      by (simp del: of_nat_add of_nat_Suc split: option.splits)
  qed
qed

lemma nth_splice:
  assumes "a + length ws \<le> length t" "x < length t"
  shows "(take a t @ ws @ drop (a + length ws) t) ! x =
         (if a \<le> x \<and> x < a + length ws then ws ! (x - a) else t ! x)"
  using assms by (auto simp: nth_append min_def)

lemma length_splice:
  "a + length ws \<le> length t \<Longrightarrow> length (take a t @ ws @ drop (a + length ws) t) = length t"
  by simp

lemma WriteText_sim:
  assumes "length (sim_text (process n)) < 2 ^ 64"
  shows "WriteText sim n A W =
     (if A + of_nat (length W) > of_nat (length (sim_text (process n)))
      then (Inl (DebuggerError ''Writing text at range {}-{}, but text size is {}''), n)
      else if unat A + length W \<le> length (sim_text (process n))
      then (Inr (),
            n\<lparr>process := (process n)\<lparr>sim_text :=
                 take (unat A) (sim_text (process n)) @
                 fst (WriteText_loop A 0 W (software_breakpoints n)) @
                 drop (unat A + length W) (sim_text (process n))\<rparr>,
              software_breakpoints := snd (WriteText_loop A 0 W (software_breakpoints n))\<rparr>)
      else (Inl sim_oob,
            n\<lparr>process := process n,
              software_breakpoints := snd (WriteText_loop A 0 W (software_breakpoints n))\<rparr>))"
  by (simp add: WriteText_def TextSize_def sim_def sim_WriteText_def WriteText_loop_length
                split_beta)

lemma ReadText_sim:
  "ReadText sim n A k =
     (if A + k > of_nat (length (sim_text (process n)))
      then Inl (DebuggerError ''Reading text at range {}-{}, but text size is {}'')
      else if unat A + unat k \<le> length (sim_text (process n))
      then Inr (ReadText_loop (software_breakpoints n) A 0
                  (take (unat k) (drop (unat A) (sim_text (process n)))))
      else Inl sim_oob)"
  by (simp add: ReadText_def TextSize_def sim_def sim_ReadText_def)

lemma ReadText_sim_in_range:
  assumes "unat A + k \<le> length (sim_text (process n))"
    and "length (sim_text (process n)) < 2 ^ 64"
    and "\<And>i. i < k \<Longrightarrow>
           (case map_of (software_breakpoints n) (of_nat i + A) of
              None \<Rightarrow> sim_text (process n) ! (unat A + i)
            | Some bp \<Rightarrow> data bp) = W ! i"
    and "length W = k"
  shows "ReadText sim n A (of_nat k) = Inr W"
proof -
  have k: "unat (of_nat k :: addr) = k"
    using assms(1,2) by (intro unat_of_nat64) simp
  have chk: "\<not> (A + of_nat k > of_nat (length (sim_text (process n))))"
    using assms(1,2) by (rule in_range_check64)
  let ?r = "ReadText_loop (software_breakpoints n) A 0
              (take k (drop (unat A) (sim_text (process n))))"
  have "?r = W"
  proof (rule nth_equalityI)
    show "length ?r = length W"
      using assms(1,4) by (simp add: ReadText_loop_length)
  next
    fix i assume "i < length ?r"
    then have i: "i < k" using assms(1) by (simp add: ReadText_loop_length)
    then show "?r ! i = W ! i"
      using assms(1) assms(3) [OF i]
      by (auto simp: ReadText_loop_nth split: option.splits)
  qed
  with k chk assms(1) show ?thesis by (simp add: ReadText_sim)
qed

subsection \<open>Breakpoint transparency\<close>

text \<open>
  C3.  Let \<open>A\<close> be a text address without a breakpoint and \<open>W\<close> a word sequence with
  \<open>A + |W|\<close> within the text.  Then \<open>SetBreakpoint(A)\<close>, \<open>WriteText(A, W)\<close> and
  \<open>ReadText(A, |W|)\<close> succeed in turn and the read returns exactly \<open>W\<close>; the following
  \<open>UnsetBreakpoint(A)\<close> succeeds, reading the range again returns \<open>W\<close>, and the text of
  the debuggee holds \<open>W ! i\<close> at \<open>A + i\<close> for every \<open>i\<close> where no other breakpoint was
  recorded before the sequence (with no other breakpoint in the range: exactly \<open>W\<close>).
\<close>

theorem breakpoint_transparency:
  fixes A :: addr
  assumes fresh: "map_of (software_breakpoints n) A = None"
    and inr: "unat A < length (sim_text (process n))"
    and rng: "unat A + length W \<le> length (sim_text (process n))"
    and sz: "length (sim_text (process n)) < 2 ^ 64"
  shows "\<exists>n1 n2 n3.
           SetBreakpoint sim n A = (Inr (), n1) \<and>
           WriteText sim n1 A W = (Inr (), n2) \<and>
           ReadText sim n2 A (of_nat (length W)) = Inr W \<and>
           UnsetBreakpoint sim n2 A = (Inr (), n3) \<and>
           ReadText sim n3 A (of_nat (length W)) = Inr W \<and>
           (\<forall>i<length W. map_of (software_breakpoints n) (of_nat i + A) = None \<longrightarrow>
                sim_text (process n3) ! (unat A + i) = W ! i)"
proof -
  let ?t = "sim_text (process n)"
  let ?a = "unat A"
  let ?bk = GetSoftwareBreakpointOpcode
  let ?m = "map_of (software_breakpoints n)"
  have key: "unat (of_nat i + A) = i + ?a" if "i < length W" for i
    using that rng sz by (intro unat_of_nat_add64) simp
  have key0: "(of_nat i + A = A) = (i = 0)" if "i < length W" for i
    using key [OF that] by (auto simp: word_unat_eq_iff)
  \<comment> \<open>SetBreakpoint\<close>
  define n1 where "n1 = n\<lparr>process := (process n)\<lparr>sim_text := ?t[?a := ?bk]\<rparr>,
      software_breakpoints := map_emplace A \<lparr>data = ?t ! ?a, enabled = True\<rparr>
        (software_breakpoints n)\<rparr>"
  have s1: "SetBreakpoint sim n A = (Inr (), n1)"
    using fresh inr by (simp add: SetBreakpoint_sim n1_def)
  have t1: "sim_text (process n1) = ?t[?a := ?bk]"
    by (simp add: n1_def)
  have m1: "map_of (software_breakpoints n1) = ?m(A \<mapsto> \<lparr>data = ?t ! ?a, enabled = True\<rparr>)"
    using fresh by (simp add: n1_def map_of_map_emplace)
  \<comment> \<open>WriteText\<close>
  let ?W' = "fst (WriteText_loop A 0 W (software_breakpoints n1))"
  define n2 where "n2 = n1\<lparr>process := (process n1)\<lparr>sim_text :=
        take ?a (sim_text (process n1)) @ ?W' @ drop (?a + length W) (sim_text (process n1))\<rparr>,
      software_breakpoints := snd (WriteText_loop A 0 W (software_breakpoints n1))\<rparr>"
  have chk: "\<not> (A + of_nat (length W) > of_nat (length (sim_text (process n1))))"
    using rng sz by (intro in_range_check64) (simp_all add: t1)
  have s2: "WriteText sim n1 A W = (Inr (), n2)"
    using chk rng sz by (simp add: WriteText_sim t1 n2_def)
  have lW': "length ?W' = length W"
    by (rule WriteText_loop_length)
  have t2: "sim_text (process n2) = take ?a (?t[?a := ?bk]) @ ?W' @ drop (?a + length ?W') (?t[?a := ?bk])"
    by (simp add: n2_def t1 lW')
  have l2: "length (sim_text (process n2)) = length ?t"
    using rng by (simp add: t2 lW')
  have m2: "map_of (software_breakpoints n2) = wmap A 0 W (map_of (software_breakpoints n1))"
    using rng sz by (simp add: n2_def WriteText_loop_map)
  have t2_nth: "sim_text (process n2) ! (?a + i) = ?W' ! i" if "i < length W" for i
    using that rng nth_splice [of ?a ?W' "?t[?a := ?bk]" "?a + i"]
    by (simp add: t2 lW')
  have vis2: "(case map_of (software_breakpoints n2) (of_nat i + A) of
                 None \<Rightarrow> sim_text (process n2) ! (?a + i)
               | Some bp \<Rightarrow> data bp) = W ! i" if "i < length W" for i
  proof (cases "map_of (software_breakpoints n1) (of_nat i + A)")
    case None
    then have "map_of (software_breakpoints n2) (of_nat i + A) = None"
      by (simp add: m2 wmap_def)
    moreover have "?W' ! i = W ! i"
      using that None by (simp add: WriteText_loop_words)
    ultimately show ?thesis using t2_nth [OF that] by simp
  next
    case (Some bp)
    then have "map_of (software_breakpoints n2) (of_nat i + A) = Some (bp\<lparr>data := W ! i\<rparr>)"
      using that key [OF that] by (simp add: m2 wmap_def)
    then show ?thesis by simp
  qed
  have r2: "ReadText sim n2 A (of_nat (length W)) = Inr W"
    using rng sz vis2 by (intro ReadText_sim_in_range) (simp_all add: l2)
  \<comment> \<open>UnsetBreakpoint\<close>
  define bp2 where "bp2 = (if 0 < length W then \<lparr>data = W ! 0, enabled = True\<rparr>
                           else \<lparr>data = ?t ! ?a, enabled = True\<rparr>)"
  have b2: "map_of (software_breakpoints n2) A = Some bp2"
    by (simp add: m2 m1 wmap_def bp2_def)
  have e2: "enabled bp2" by (simp add: bp2_def)
  define n3 where "n3 = n2\<lparr>process := (process n2)\<lparr>sim_text :=
        (sim_text (process n2))[?a := data bp2]\<rparr>,
      software_breakpoints := AList.delete A
        (AList.update A (bp2\<lparr>enabled := False\<rparr>) (software_breakpoints n2))\<rparr>"
  have s3: "UnsetBreakpoint sim n2 A = (Inr (), n3)"
    using inr by (simp add: UnsetBreakpoint_def DisableSoftwareBreakpoint_sim b2 e2 l2 n3_def)
  have m3: "map_of (software_breakpoints n3) = (map_of (software_breakpoints n2))(A := None)"
    by (simp add: n3_def delete_conv' update_conv')
  have t3: "sim_text (process n3) = (sim_text (process n2))[?a := data bp2]"
    by (simp add: n3_def)
  have l3: "length (sim_text (process n3)) = length ?t"
    by (simp add: t3 l2)
  have vis3: "map_of (software_breakpoints n3) (of_nat i + A) = None \<longrightarrow>
                sim_text (process n3) ! (?a + i) = W ! i"
             "\<forall>bp. map_of (software_breakpoints n3) (of_nat i + A) = Some bp \<longrightarrow>
                data bp = W ! i" if "i < length W" for i
  proof -
    show "map_of (software_breakpoints n3) (of_nat i + A) = None \<longrightarrow>
                sim_text (process n3) ! (?a + i) = W ! i"
    proof (cases "i = 0")
      case True
      with that inr show ?thesis by (simp add: t3 l2 bp2_def)
    next
      case False
      with key0 [OF that] vis2 [OF that] show ?thesis
        by (auto simp: m3 t3 split: option.splits)
    qed
    show "\<forall>bp. map_of (software_breakpoints n3) (of_nat i + A) = Some bp \<longrightarrow>
                data bp = W ! i"
      using key0 [OF that] vis2 [OF that] by (auto simp: m3 split: if_splits)
  qed
  have r3: "ReadText sim n3 A (of_nat (length W)) = Inr W"
  proof (rule ReadText_sim_in_range)
    show "unat A + length W \<le> length (sim_text (process n3))" using rng by (simp add: l3)
    show "length (sim_text (process n3)) < 2 ^ 64" using sz by (simp add: l3)
    show "length W = length W" ..
    fix i assume "i < length W"
    from vis3 [OF this]
    show "(case map_of (software_breakpoints n3) (of_nat i + A) of
            None \<Rightarrow> sim_text (process n3) ! (unat A + i) | Some bp \<Rightarrow> data bp) = W ! i"
      by (auto split: option.splits)
  qed
  have raw: "sim_text (process n3) ! (?a + i) = W ! i"
    if "i < length W" "?m (of_nat i + A) = None" for i
  proof -
    have "map_of (software_breakpoints n3) (of_nat i + A) = None"
      using that by (simp add: m3 m2 m1 wmap_def)
    with vis3(1) [OF that(1)] show ?thesis by simp
  qed
  from s1 s2 r2 s3 r3 raw show ?thesis by blast
qed

theorem breakpoint_transparency_witness:
  "map_of (software_breakpoints (Native_init (sim_init [''MOV'', ''ADD'', ''HALT'']))) (1 :: addr) = None \<and>
   unat (1 :: addr) < length (sim_text (process (Native_init (sim_init [''MOV'', ''ADD'', ''HALT''])))) \<and>
   unat (1 :: addr) + length [''SUB'', ''NOP''] \<le>
     length (sim_text (process (Native_init (sim_init [''MOV'', ''ADD'', ''HALT''])))) \<and>
   (\<exists>n1 n2 n3.
      SetBreakpoint sim (Native_init (sim_init [''MOV'', ''ADD'', ''HALT''])) 1 = (Inr (), n1) \<and>
      WriteText sim n1 1 [''SUB'', ''NOP''] = (Inr (), n2) \<and>
      ReadText sim n2 1 2 = Inr [''SUB'', ''NOP''] \<and>
      UnsetBreakpoint sim n2 1 = (Inr (), n3) \<and>
      ReadText sim n3 1 2 = Inr [''SUB'', ''NOP''] \<and>
      sim_text (process n3) ! 1 = ''SUB'' \<and> sim_text (process n3) ! 2 = ''NOP'')"
proof -
  let ?n = "Native_init (sim_init [''MOV'', ''ADD'', ''HALT''])"
  have h1: "map_of (software_breakpoints ?n) (1 :: addr) = None"
    by (simp add: Native_init_def)
  have h2: "unat (1 :: addr) < length (sim_text (process ?n))"
    by (simp add: Native_init_def sim_init_def)
  have h3: "unat (1 :: addr) + length [''SUB'', ''NOP''] \<le> length (sim_text (process ?n))"
    by (simp add: Native_init_def sim_init_def)
  have h4: "length (sim_text (process ?n)) < 2 ^ 64"
    by (simp add: Native_init_def sim_init_def)
  from breakpoint_transparency [OF h1 h2 h3 h4] obtain n1 n2 n3 where
      "SetBreakpoint sim ?n 1 = (Inr (), n1)"
      "WriteText sim n1 1 [''SUB'', ''NOP''] = (Inr (), n2)"
      "ReadText sim n2 1 (of_nat (length [''SUB'', ''NOP''])) = Inr [''SUB'', ''NOP'']"
      "UnsetBreakpoint sim n2 1 = (Inr (), n3)"
      "ReadText sim n3 1 (of_nat (length [''SUB'', ''NOP''])) = Inr [''SUB'', ''NOP'']"
      and raw: "\<forall>i<length [''SUB'', ''NOP''].
             map_of (software_breakpoints ?n) (of_nat i + 1) = None \<longrightarrow>
             sim_text (process n3) ! (unat (1 :: addr) + i) = [''SUB'', ''NOP''] ! i"
    by blast
  moreover from raw have "sim_text (process n3) ! 1 = ''SUB''"
    by (auto simp: Native_init_def dest: spec [of _ 0])
  moreover from raw have "sim_text (process n3) ! 2 = ''NOP''"
    by (auto simp: Native_init_def numeral_2_eq_2 dest: spec [of _ "Suc 0"])
  ultimately show ?thesis using h1 h2 h3 by auto
qed

section \<open>Breakpoint records over sequences of operations\<close>

text \<open>
  The operations a front-end applies to \<open>Native\<close>, here over the simulated process.  An
  operation that throws leaves \<open>Native\<close> as it was at the throw, and the front-end goes
  on with it.
\<close>

datatype NativeOp =
    OpSetBreakpoint addr
  | OpUnsetBreakpoint addr
  | OpEnable addr
  | OpDisable addr
  | OpReadText addr size_t
  | OpWriteText addr "string list"

fun apply_op :: "NativeOp \<Rightarrow> SimProcess Native \<Rightarrow> SimProcess Native" where
  "apply_op (OpSetBreakpoint a) n = snd (SetBreakpoint sim n a)"
| "apply_op (OpUnsetBreakpoint a) n = snd (UnsetBreakpoint sim n a)"
| "apply_op (OpEnable a) n = snd (EnableSoftwareBreakpoint sim n a)"
| "apply_op (OpDisable a) n = snd (DisableSoftwareBreakpoint sim n a)"
| "apply_op (OpReadText a k) n = n"
| "apply_op (OpWriteText a ws) n = snd (WriteText sim n a ws)"

fun run_ops :: "NativeOp list \<Rightarrow> SimProcess Native \<Rightarrow> SimProcess Native" where
  "run_ops [] n = n"
| "run_ops (op # ops) n = run_ops ops (apply_op op n)"

text \<open>
  The program as the user has it: the text the debuggee was loaded with, changed only by
  the word sequences that \<open>WriteText\<close> calls have written successfully.
\<close>

fun program_after :: "NativeOp \<Rightarrow> SimProcess Native \<Rightarrow> string list \<Rightarrow> string list" where
  "program_after (OpWriteText a ws) n L =
     (case fst (WriteText sim n a ws) of
        Inl _ \<Rightarrow> L
      | Inr _ \<Rightarrow> take (unat a) L @ ws @ drop (unat a + length ws) L)"
| "program_after _ n L = L"

fun run_program :: "NativeOp list \<Rightarrow> SimProcess Native \<Rightarrow> string list \<Rightarrow> string list" where
  "run_program [] n L = L"
| "run_program (op # ops) n L = run_program ops (apply_op op n) (program_after op n L)"

text \<open>
  \<open>write_clear\<close>: a \<open>WriteText\<close> whose range does not wrap around \<open>2^64\<close> and holds no
  disabled breakpoint (every other operation qualifies).
\<close>

fun write_clear :: "NativeOp \<Rightarrow> SimProcess Native \<Rightarrow> bool" where
  "write_clear (OpWriteText a ws) n =
     (unat a + length ws < 2 ^ 64 \<and>
      list_all (\<lambda>i. case map_of (software_breakpoints n) (of_nat i + a) of
                      None \<Rightarrow> True
                    | Some bp \<Rightarrow> enabled bp) [0 ..< length ws])"
| "write_clear _ n = True"

fun writes_clear :: "NativeOp list \<Rightarrow> SimProcess Native \<Rightarrow> bool" where
  "writes_clear [] n = True"
| "writes_clear (op # ops) n = (write_clear op n \<and> writes_clear ops (apply_op op n))"

text \<open>
  \<open>traps_installed\<close>: every enabled record's address holds the trap opcode.
  \<open>saved_is_program n L\<close>: against the program \<open>L\<close>, every record's saved opcode is the
  program's word at its address, the debuggee holds the trap opcode there when the record
  is enabled and the program's word when it is disabled, and it holds the program's word
  wherever no breakpoint is recorded.
\<close>

definition saved_is_program :: "SimProcess Native \<Rightarrow> string list \<Rightarrow> bool" where
  "saved_is_program n L =
     (length L = length (sim_text (process n)) \<and>
      (\<forall>A. map_of (software_breakpoints n) A = None \<longrightarrow>
           unat A < length (sim_text (process n)) \<longrightarrow>
           sim_text (process n) ! unat A = L ! unat A) \<and>
      (\<forall>A bp. map_of (software_breakpoints n) A = Some bp \<longrightarrow>
           unat A < length (sim_text (process n)) \<and>
           data bp = L ! unat A \<and>
           sim_text (process n) ! unat A =
             (if enabled bp then GetSoftwareBreakpointOpcode else L ! unat A)))"

definition traps_installed :: "SimProcess Native \<Rightarrow> bool" where
  "traps_installed n =
     (\<forall>A bp. map_of (software_breakpoints n) A = Some bp \<longrightarrow> enabled bp \<longrightarrow>
        unat A < length (sim_text (process n)) \<and>
        sim_text (process n) ! unat A = GetSoftwareBreakpointOpcode)"

lemma traps_WriteText:
  assumes sz: "length (sim_text (process n)) < 2 ^ 64" and inv: "traps_installed n"
  shows "traps_installed (snd (WriteText sim n A W))"
proof (cases "A + of_nat (length W) > of_nat (length (sim_text (process n)))")
  case True
  with sz inv show ?thesis by (simp add: WriteText_sim)
next
  case chk: False
  let ?t = "sim_text (process n)"
  let ?tbl = "software_breakpoints n"
  let ?W' = "fst (WriteText_loop A 0 W ?tbl)"
  let ?tbl' = "snd (WriteText_loop A 0 W ?tbl)"
  have en: "\<exists>bp0. map_of ?tbl B = Some bp0 \<and> enabled bp0"
    if "map_of ?tbl' B = Some bp" "enabled bp" for B bp
    using WriteText_loop_enabled [of A 0 W ?tbl B] that by (cases "map_of ?tbl B") auto
  show ?thesis
  proof (cases "unat A + length W \<le> length ?t")
    case False
    with sz chk inv en show ?thesis
      by (fastforce simp: WriteText_sim traps_installed_def)
  next
    case rng: True
    have lW': "length ?W' = length W" by (rule WriteText_loop_length)
    have "unat B < length ?t \<and>
          (take (unat A) ?t @ ?W' @ drop (unat A + length W) ?t) ! unat B =
            GetSoftwareBreakpointOpcode"
      if "map_of ?tbl' B = Some bp" "enabled bp" for B bp
    proof -
      from en [OF that] obtain bp0 where b0: "map_of ?tbl B = Some bp0" "enabled bp0" by blast
      with inv have B: "unat B < length ?t" "?t ! unat B = GetSoftwareBreakpointOpcode"
        by (auto simp: traps_installed_def)
      show ?thesis
      proof (cases "unat A \<le> unat B \<and> unat B < unat A + length W")
        case False
        with B rng lW' nth_splice [of "unat A" ?W' ?t "unat B"] show ?thesis by auto
      next
        case True
        define i where "i = unat B - unat A"
        have i: "i < length W" "unat B = i + unat A" using True by (auto simp: i_def)
        have "unat (of_nat i + A) = i + unat A"
          using i rng sz by (intro unat_of_nat_add64) simp
        with i have "B = of_nat i + A" by (simp add: word_unat_eq_iff)
        with b0 i have "?W' ! i = GetSoftwareBreakpointOpcode"
          by (simp add: WriteText_loop_words)
        with True B rng lW' nth_splice [of "unat A" ?W' ?t "unat B"] show ?thesis
          by (simp add: i_def)
      qed
    qed
    with sz chk rng lW' show ?thesis
      by (simp add: WriteText_sim traps_installed_def)
  qed
qed

lemma traps_apply_op:
  assumes sz: "length (sim_text (process n)) < 2 ^ 64" and inv: "traps_installed n"
  shows "traps_installed (apply_op op n)"
proof (cases op)
  case (OpSetBreakpoint a)
  with inv show ?thesis
    by (auto simp: SetBreakpoint_sim traps_installed_def map_of_map_emplace nth_list_update
                   word_unat_eq_iff split: if_splits)
next
  case (OpUnsetBreakpoint a)
  with inv show ?thesis
    by (auto simp: UnsetBreakpoint_def DisableSoftwareBreakpoint_sim traps_installed_def
                   delete_conv' update_conv' nth_list_update word_unat_eq_iff
             split: if_splits option.splits)
next
  case (OpEnable a)
  with inv show ?thesis
    by (auto simp: EnableSoftwareBreakpoint_sim traps_installed_def update_conv' nth_list_update
                   word_unat_eq_iff split: if_splits option.splits)
next
  case (OpDisable a)
  with inv show ?thesis
    by (auto simp: DisableSoftwareBreakpoint_sim traps_installed_def update_conv' nth_list_update
                   word_unat_eq_iff split: if_splits option.splits)
next
  case (OpReadText a k)
  with inv show ?thesis by simp
next
  case (OpWriteText a ws)
  with traps_WriteText [OF sz inv] show ?thesis by simp
qed

lemma length_apply_op:
  assumes sz: "length (sim_text (process n)) < 2 ^ 64"
  shows "length (sim_text (process (apply_op op n))) = length (sim_text (process n))"
proof (cases op)
  case (OpWriteText a ws)
  with sz show ?thesis by (simp add: WriteText_sim WriteText_loop_length)
qed (auto simp: SetBreakpoint_sim UnsetBreakpoint_def DisableSoftwareBreakpoint_sim
        EnableSoftwareBreakpoint_sim split: option.splits)

lemma traps_run_ops:
  "length (sim_text (process n)) < 2 ^ 64 \<Longrightarrow> traps_installed n \<Longrightarrow>
   traps_installed (run_ops ops n)"
proof (induction ops arbitrary: n)
  case Nil
  then show ?case by simp
next
  case (Cons op ops)
  from Cons.prems have "traps_installed (apply_op op n)"
    by (intro traps_apply_op)
  moreover from Cons.prems have "length (sim_text (process (apply_op op n))) < 2 ^ 64"
    by (simp add: length_apply_op)
  ultimately show ?case using Cons.IH by simp
qed

lemma saved_WriteText:
  assumes sz: "length (sim_text (process n)) < 2 ^ 64"
    and inv: "saved_is_program n L"
    and clr: "write_clear (OpWriteText A W) n"
  shows "saved_is_program (snd (WriteText sim n A W)) (program_after (OpWriteText A W) n L)"
proof (cases "A + of_nat (length W) > of_nat (length (sim_text (process n)))")
  case True
  with sz inv show ?thesis by (simp add: WriteText_sim)
next
  case chk: False
  let ?t = "sim_text (process n)"
  let ?tbl = "software_breakpoints n"
  let ?W' = "fst (WriteText_loop A 0 W ?tbl)"
  let ?tbl' = "snd (WriteText_loop A 0 W ?tbl)"
  let ?a = "unat A"
  from clr have nowrap: "?a + length W < 2 ^ 64" by simp
  have "unat (of_nat (length W) + A) = length W + ?a"
    using nowrap by (intro unat_of_nat_add64) simp
  moreover have "unat (of_nat (length ?t) :: addr) = length ?t"
    using sz by (rule unat_of_nat64)
  ultimately have rng: "?a + length W \<le> length ?t"
    using chk by (simp add: word_less_nat_alt add.commute)
  have lL: "length L = length ?t" using inv by (simp add: saved_is_program_def)
  have lW': "length ?W' = length W" by (rule WriteText_loop_length)
  define t' where "t' = take ?a ?t @ ?W' @ drop (?a + length W) ?t"
  define L' where "L' = take ?a L @ W @ drop (?a + length W) L"
  have res: "snd (WriteText sim n A W) =
      n\<lparr>process := (process n)\<lparr>sim_text := t'\<rparr>, software_breakpoints := ?tbl'\<rparr>"
    and ok: "fst (WriteText sim n A W) = Inr ()"
    using sz chk rng by (simp_all add: WriteText_sim t'_def)
  have prog: "program_after (OpWriteText A W) n L = L'"
    by (simp add: ok L'_def)
  have m': "map_of ?tbl' = wmap A 0 W (map_of ?tbl)"
    using nowrap by (intro WriteText_loop_map) simp
  have lt': "length t' = length ?t" using rng by (simp add: lW' t'_def)
  have lL': "length L' = length ?t" using rng lL by (simp add: L'_def)
  have t'_nth: "t' ! x = (if ?a \<le> x \<and> x < ?a + length W then ?W' ! (x - ?a) else ?t ! x)"
    if "x < length ?t" for x
    using nth_splice [of ?a ?W' ?t x] that rng by (simp add: lW' t'_def)
  have L'_nth: "L' ! x = (if ?a \<le> x \<and> x < ?a + length W then W ! (x - ?a) else L ! x)"
    if "x < length ?t" for x
    using nth_splice [of ?a W L x] that rng lL by (simp add: L'_def)
  have in_range: "B = of_nat (unat B - ?a) + A \<and> unat B - ?a < length W"
    if "?a \<le> unat B" "unat B < ?a + length W" for B
  proof -
    have "unat (of_nat (unat B - ?a) + A) = (unat B - ?a) + ?a"
      using that nowrap by (intro unat_of_nat_add64) simp
    with that show ?thesis by (simp add: word_unat_eq_iff)
  qed
  have perB: "case map_of ?tbl' B of
          None \<Rightarrow> unat B < length t' \<longrightarrow> t' ! unat B = L' ! unat B
        | Some bp \<Rightarrow>
            unat B < length t' \<and> data bp = L' ! unat B \<and>
            t' ! unat B = (if enabled bp then GetSoftwareBreakpointOpcode else L' ! unat B)"
    for B
  proof (cases "map_of ?tbl B")
    case None
    then have n': "map_of ?tbl' B = None" by (simp add: m' wmap_def)
    from inv None have old: "unat B < length ?t \<longrightarrow> ?t ! unat B = L ! unat B"
      by (auto simp: saved_is_program_def)
    have "t' ! unat B = L' ! unat B" if x: "unat B < length ?t"
    proof (cases "?a \<le> unat B \<and> unat B < ?a + length W")
      case True
      with in_range [of B] have B: "B = of_nat (unat B - ?a) + A" "unat B - ?a < length W"
        by auto
      from None B have "map_of ?tbl (of_nat (0 + (unat B - ?a)) + A) = None" by simp
      with B(2) have "?W' ! (unat B - ?a) = W ! (unat B - ?a)"
        using WriteText_loop_words [of "unat B - ?a" W A 0 ?tbl] by auto
      with True x show ?thesis by (simp add: t'_nth L'_nth)
    next
      case False
      with x old show ?thesis by (auto simp: t'_nth L'_nth)
    qed
    with n' show ?thesis by (simp add: lt')
  next
    case (Some bp)
    from inv Some have old: "unat B < length ?t" "data bp = L ! unat B"
        "?t ! unat B = (if enabled bp then GetSoftwareBreakpointOpcode else L ! unat B)"
      by (auto simp: saved_is_program_def)
    show ?thesis
    proof (cases "?a \<le> unat B \<and> unat B < ?a + length W")
      case True
      with in_range [of B] have B: "B = of_nat (unat B - ?a) + A" "unat B - ?a < length W"
        by auto
      from True Some have n': "map_of ?tbl' B = Some (bp\<lparr>data := W ! (unat B - ?a)\<rparr>)"
        by (simp add: m' wmap_def)
      from Some B have "map_of ?tbl (of_nat (0 + (unat B - ?a)) + A) \<noteq> None" by simp
      with B(2) have w: "?W' ! (unat B - ?a) = GetSoftwareBreakpointOpcode"
        using WriteText_loop_words [of "unat B - ?a" W A 0 ?tbl] by auto
      from clr B(2) have "case map_of ?tbl (of_nat (unat B - ?a) + A) of
                            None \<Rightarrow> True | Some bp \<Rightarrow> enabled bp"
        by (simp add: list_all_iff)
      with B(1) Some have "enabled bp" by simp
      with True old(1) n' w show ?thesis by (simp add: t'_nth L'_nth lt')
    next
      case False
      with Some have "map_of ?tbl' B = Some bp" by (auto simp: m' wmap_def)
      with False old show ?thesis by (auto simp: t'_nth L'_nth lt')
    qed
  qed
  have pN: "t' ! unat B = L' ! unat B"
    if "map_of ?tbl' B = None" "unat B < length t'" for B
    using perB [of B] that by simp
  have pS: "unat B < length t' \<and> data bp = L' ! unat B \<and>
            t' ! unat B = (if enabled bp then GetSoftwareBreakpointOpcode else L' ! unat B)"
    if "map_of ?tbl' B = Some bp" for B bp
    using perB [of B] that by simp
  show ?thesis
    unfolding res prog saved_is_program_def
    using pN pS by (auto simp: lL' lt')
qed

lemma saved_Enable:
  assumes inv: "saved_is_program n L"
  shows "saved_is_program (snd (EnableSoftwareBreakpoint sim n a)) L"
proof (cases "map_of (software_breakpoints n) a")
  case None
  with inv show ?thesis by (simp add: EnableSoftwareBreakpoint_sim)
next
  case (Some bp)
  show ?thesis
  proof (cases "enabled bp \<or> \<not> unat a < length (sim_text (process n))")
    case True
    with Some inv show ?thesis by (auto simp: EnableSoftwareBreakpoint_sim)
  next
    case False
    with inv Some have old: "sim_text (process n) ! unat a = L ! unat a"
      by (auto simp: saved_is_program_def)
    from False Some have res: "snd (EnableSoftwareBreakpoint sim n a) =
        n\<lparr>process := (process n)\<lparr>sim_text :=
             (sim_text (process n))[unat a := GetSoftwareBreakpointOpcode]\<rparr>,
          software_breakpoints :=
             AList.update a \<lparr>data = sim_text (process n) ! unat a, enabled = True\<rparr>
               (software_breakpoints n)\<rparr>"
      by (simp add: EnableSoftwareBreakpoint_sim)
    from inv old False show ?thesis
      unfolding res saved_is_program_def
      by (auto simp: update_conv' nth_list_update word_unat_eq_iff)
  qed
qed

lemma saved_apply_op:
  assumes sz: "length (sim_text (process n)) < 2 ^ 64"
    and inv: "saved_is_program n L"
    and clr: "write_clear op n"
  shows "saved_is_program (apply_op op n) (program_after op n L)"
proof (cases op)
  case (OpSetBreakpoint a)
  with inv show ?thesis
    by (auto simp: SetBreakpoint_sim saved_is_program_def map_of_map_emplace nth_list_update
                   word_unat_eq_iff split: if_splits)
next
  case (OpUnsetBreakpoint a)
  with inv show ?thesis
    by (auto simp: UnsetBreakpoint_def DisableSoftwareBreakpoint_sim saved_is_program_def
                   delete_conv' update_conv' nth_list_update word_unat_eq_iff
             split: if_splits option.splits)
next
  case (OpEnable a)
  with saved_Enable [OF inv] show ?thesis by simp
next
  case (OpDisable a)
  with inv show ?thesis
    by (auto simp: DisableSoftwareBreakpoint_sim saved_is_program_def update_conv' nth_list_update
                   word_unat_eq_iff split: if_splits option.splits)
next
  case (OpReadText a k)
  with inv show ?thesis by simp
next
  case (OpWriteText a ws)
  with saved_WriteText [OF sz inv] clr show ?thesis by simp
qed

lemma saved_run_ops:
  "length (sim_text (process n)) < 2 ^ 64 \<Longrightarrow> saved_is_program n L \<Longrightarrow>
   writes_clear ops n \<Longrightarrow> saved_is_program (run_ops ops n) (run_program ops n L)"
proof (induction ops arbitrary: n L)
  case Nil
  then show ?case by simp
next
  case (Cons op ops)
  from Cons.prems have "saved_is_program (apply_op op n) (program_after op n L)"
    by (intro saved_apply_op) simp_all
  moreover from Cons.prems have "length (sim_text (process (apply_op op n))) < 2 ^ 64"
    by (simp add: length_apply_op)
  moreover from Cons.prems have "writes_clear ops (apply_op op n)" by simp
  ultimately show ?case using Cons.IH by simp
qed

lemma traps_installed_init: "traps_installed (Native_init p)"
  by (simp add: traps_installed_def Native_init_def)

lemma saved_is_program_init: "saved_is_program (Native_init p) (sim_text p)"
  by (simp add: saved_is_program_def Native_init_def)

text \<open>
  C2, as the code has it.  After every sequence of set, unset, enable, disable, ReadText
  and WriteText from a fresh \<open>Native\<close>, every enabled record's address is within the text
  and holds the trap opcode.  When no WriteText of the sequence wrapped around the address
  space or covered a disabled breakpoint, the record's saved opcode is moreover the
  program's word at that address: the word loaded there, or the word most recently
  written there through WriteText.  (The saved opcode can itself be the trap opcode: see
  the counterexample.)
\<close>

theorem enabled_breakpoint_invariant:
  assumes "length (sim_text p) < 2 ^ 64"
    and "map_of (software_breakpoints (run_ops ops (Native_init p))) A = Some bp"
    and "enabled bp"
  shows "unat A < length (sim_text (process (run_ops ops (Native_init p)))) \<and>
         sim_text (process (run_ops ops (Native_init p))) ! unat A = GetSoftwareBreakpointOpcode \<and>
         (writes_clear ops (Native_init p) \<longrightarrow>
            data bp = run_program ops (Native_init p) (sim_text p) ! unat A)"
proof -
  have sz: "length (sim_text (process (Native_init p))) < 2 ^ 64"
    using assms(1) by (simp add: Native_init_def)
  from traps_run_ops [OF sz traps_installed_init, of ops] assms(2,3)
  have "unat A < length (sim_text (process (run_ops ops (Native_init p)))) \<and>
        sim_text (process (run_ops ops (Native_init p))) ! unat A = GetSoftwareBreakpointOpcode"
    by (simp add: traps_installed_def)
  moreover have "data bp = run_program ops (Native_init p) (sim_text p) ! unat A"
    if "writes_clear ops (Native_init p)"
    using saved_run_ops [OF sz saved_is_program_init that] assms(2)
    by (simp add: saved_is_program_def)
  ultimately show ?thesis by blast
qed

definition write_over_trap_ops :: "NativeOp list" where
  "write_over_trap_ops = [OpSetBreakpoint 1, OpWriteText 0 [''ADD'', ''SUB'']]"

theorem enabled_breakpoint_invariant_witness:
  "length (sim_text (sim_init [''NOP'', ''MOV'', ''HALT''])) < 2 ^ 64 \<and>
   map_of (software_breakpoints
       (run_ops write_over_trap_ops (Native_init (sim_init [''NOP'', ''MOV'', ''HALT''])))) 1 =
     Some \<lparr>data = ''SUB'', enabled = True\<rparr> \<and>
   writes_clear write_over_trap_ops (Native_init (sim_init [''NOP'', ''MOV'', ''HALT''])) \<and>
   sim_text (process
       (run_ops write_over_trap_ops (Native_init (sim_init [''NOP'', ''MOV'', ''HALT''])))) ! 1 =
     GetSoftwareBreakpointOpcode \<and>
   run_program write_over_trap_ops (Native_init (sim_init [''NOP'', ''MOV'', ''HALT'']))
       (sim_text (sim_init [''NOP'', ''MOV'', ''HALT''])) ! 1 = ''SUB''"
proof -
  let ?p = "sim_init [''NOP'', ''MOV'', ''HALT'']"
  have h1: "length (sim_text ?p) < 2 ^ 64"
    by (simp add: sim_init_def)
  have h2: "map_of (software_breakpoints (run_ops write_over_trap_ops (Native_init ?p))) 1 =
              Some \<lparr>data = ''SUB'', enabled = True\<rparr>"
    by code_simp
  have h3: "enabled \<lparr>data = ''SUB'', enabled = True\<rparr>"
    by simp
  have n1: "snd (SetBreakpoint sim (Native_init ?p) 1) =
      \<lparr>process = ?p\<lparr>sim_text := [''NOP'', ''BKPT'', ''HALT'']\<rparr>,
       software_breakpoints = [(1, \<lparr>data = ''MOV'', enabled = True\<rparr>)],
       watchpoints = [], cached_event = None\<rparr>"
    by (simp add: SetBreakpoint_sim Native_init_def sim_init_def GetSoftwareBreakpointOpcode_def)
  have h4: "writes_clear write_over_trap_ops (Native_init ?p)"
    by (simp add: write_over_trap_ops_def n1 upt_rec)
  from enabled_breakpoint_invariant [OF h1 h2 h3] h1 h2 h4
  show ?thesis by simp
qed

text \<open>
  C2 as stated fails.  A program with a \<open>BKPT\<close> of its own at address 1: the record of a
  breakpoint set there is enabled and its saved opcode is the trap opcode.  And a
  WriteText over a disabled breakpoint: \<open>SetBreakpoint(0)\<close>, \<open>Disable(0)\<close>,
  \<open>WriteText(0, [ADD])\<close>, \<open>Enable(0)\<close> on the program \<open>NOP; HALT\<close> ends with an enabled
  record whose saved opcode is the trap opcode, while the program's word at 0 is \<open>ADD\<close>.
\<close>

definition disabled_write_ops :: "NativeOp list" where
  "disabled_write_ops =
     [OpSetBreakpoint 0, OpDisable 0, OpWriteText 0 [''ADD''], OpEnable 0]"

theorem saved_opcode_is_trap_counterexample:
  "map_of (software_breakpoints
      (run_ops [OpSetBreakpoint 1] (Native_init (sim_init [''NOP'', ''BKPT'', ''HALT''])))) 1 =
     Some \<lparr>data = GetSoftwareBreakpointOpcode, enabled = True\<rparr> \<and>
   map_of (software_breakpoints
      (run_ops disabled_write_ops (Native_init (sim_init [''NOP'', ''HALT''])))) 0 =
     Some \<lparr>data = GetSoftwareBreakpointOpcode, enabled = True\<rparr> \<and>
   run_program disabled_write_ops (Native_init (sim_init [''NOP'', ''HALT'']))
      [''NOP'', ''HALT''] ! 0 = ''ADD''"
proof (intro conjI)
  show "map_of (software_breakpoints
      (run_ops [OpSetBreakpoint 1] (Native_init (sim_init [''NOP'', ''BKPT'', ''HALT''])))) 1 =
     Some \<lparr>data = GetSoftwareBreakpointOpcode, enabled = True\<rparr>"
    by code_simp
  show "map_of (software_breakpoints
      (run_ops disabled_write_ops (Native_init (sim_init [''NOP'', ''HALT''])))) 0 =
     Some \<lparr>data = GetSoftwareBreakpointOpcode, enabled = True\<rparr>"
    by code_simp
  show "run_program disabled_write_ops (Native_init (sim_init [''NOP'', ''HALT'']))
      [''NOP'', ''HALT''] ! 0 = ''ADD''"
    by code_simp
qed

section \<open>Assembly lexer and parser (common/parser.h)\<close>

subsection \<open>Tokens and characters\<close>

datatype TokenKind =
  ID | DOT | NUM | LBRACKET | RBRACKET | END | SEMICOLON | PLUS | TIMES | COMMA | STRING | FLOAT

record Token =
  kind :: TokenKind
  row :: nat
  col :: nat

text \<open>
  The lexer keeps the character it looks at in a \<open>char\<close>, into which the \<open>int\<close> that
  \<open>istream::get\<close> returns is narrowed: the end of the stream (\<open>EOF\<close>, -1) becomes the
  character 0xFF, and \<open>lookahead == EOF\<close> holds for it (\<open>char\<close> is signed on the
  platforms the project builds on).  The classification functions are those of the C
  locale.
\<close>

definition EOF :: char where
  "EOF = CHR 0xFF"

definition isdigit :: "char \<Rightarrow> bool" where
  "isdigit c = (c \<in> set ''0123456789'')"

definition isalpha :: "char \<Rightarrow> bool" where
  "isalpha c = (c \<in> set ''abcdefghijklmnopqrstuvwxyzABCDEFGHIJKLMNOPQRSTUVWXYZ'')"

definition isalnum :: "char \<Rightarrow> bool" where
  "isalnum c = (isalpha c \<or> isdigit c)"

definition isspace :: "char \<Rightarrow> bool" where
  "isspace c = (c = CHR '' '' \<or> c = CHR 0x09 \<or> c = CHR 0x0A \<or> c = CHR 0x0B \<or>
                c = CHR 0x0C \<or> c = CHR 0x0D)"

subsection \<open>std::stoi and atoi\<close>

text \<open>
  \<open>std::stoi\<close> (base 10): leading white space is skipped, one sign is taken, the digits
  that follow are converted; without a digit it throws \<open>std::invalid_argument\<close>, with a
  value outside \<open>int\<close> it throws \<open>std::out_of_range\<close>; what follows the digits is
  ignored.
\<close>

definition digit_val :: "char \<Rightarrow> int" where
  "digit_val c = int (of_char c) - 48"

definition digits_value :: "string \<Rightarrow> int" where
  "digits_value ds = foldl (\<lambda>v c. 10 * v + digit_val c) 0 ds"

definition stoi :: "string \<Rightarrow> error + 32 word" where
  "stoi s =
     (let s1 = dropWhile isspace s;
          negative = (case s1 of c # _ \<Rightarrow> c = CHR ''-'' | [] \<Rightarrow> False);
          s2 = (case s1 of c # r \<Rightarrow> if c = CHR ''-'' \<or> c = CHR ''+'' then r else s1 | [] \<Rightarrow> s1);
          ds = takeWhile isdigit s2;
          v = (if negative then - digits_value ds else digits_value ds)
      in if ds = [] then Inl StdInvalidArgument
         else if v < - (2 ^ 31) \<or> 2 ^ 31 - 1 < v then Inl StdOutOfRange
         else Inr (word_of_int v))"

text \<open>
  \<open>std::stod\<close> on the text of a float literal.  The value is kept as the sign and the
  text converted; the text has a conversion when digits stand before or after the point
  (\<open>std::invalid_argument\<close> otherwise).  The range error of \<open>std::stod\<close> for a text beyond
  the range of \<open>double\<close> is not modelled.
\<close>

definition stod :: "string \<Rightarrow> error + string" where
  "stod s =
     (let s1 = dropWhile isspace s;
          s2 = (case s1 of c # r \<Rightarrow> if c = CHR ''-'' \<or> c = CHR ''+'' then r else s1 | [] \<Rightarrow> s1);
          d1 = takeWhile isdigit s2;
          r1 = dropWhile isdigit s2;
          d2 = (case r1 of c # r \<Rightarrow> if c = CHR ''.'' then takeWhile isdigit r else [] | [] \<Rightarrow> [])
      in if d1 = [] \<and> d2 = [] then Inl StdInvalidArgument else Inr s)"

subsection \<open>Lexer\<close>

text \<open>
  The members of \<open>Lexer\<close>; \<open>input\<close> is what the stream has not yet delivered.
\<close>

record Lexer =
  input :: string
  lookahead :: char
  cur_row :: nat
  cur_col :: nat
  tok_begin_row :: nat
  tok_begin_col :: nat
  number :: "32 word"
  float_number :: "bool \<times> string"
  lex_id :: string
  str :: string

text \<open>\<open>input.get()\<close>: the next character, or \<open>EOF\<close> at the end of the stream.\<close>

definition stream_get :: "Lexer \<Rightarrow> Lexer" where
  "stream_get l =
     (case input l of
        [] \<Rightarrow> l\<lparr>lookahead := EOF\<rparr>
      | c # cs \<Rightarrow> l\<lparr>input := cs, lookahead := c\<rparr>)"

definition Lexer_init :: "string \<Rightarrow> Lexer" where
  "Lexer_init s =
     stream_get \<lparr>input = s, lookahead = EOF, cur_row = 0, cur_col = 0,
                 tok_begin_row = 0, tok_begin_col = 0, number = - 1,
                 float_number = (True, ''1''), lex_id = [], str = []\<rparr>"

definition GetChar :: "Lexer \<Rightarrow> Lexer" where
  "GetChar l =
     stream_get (l\<lparr>cur_row := (if lookahead l = CHR 0x0A then cur_row l + 1 else cur_row l),
                   cur_col := (if lookahead l = CHR 0x0A then 0 else cur_col l + 1)\<rparr>)"

text \<open>What the stream and the look-ahead still hold: the measure of the lexer's loops.\<close>

definition remaining :: "Lexer \<Rightarrow> nat" where
  "remaining l = length (input l) + (if lookahead l = EOF then 0 else 1)"

lemma remaining_GetChar_le: "remaining (GetChar l) \<le> remaining l"
  by (auto simp: remaining_def GetChar_def stream_get_def split: list.splits)

lemma remaining_GetChar_less: "lookahead l \<noteq> EOF \<Longrightarrow> remaining (GetChar l) < remaining l"
  by (auto simp: remaining_def GetChar_def stream_get_def split: list.splits)

lemma input_GetChar_less:
  "lookahead (GetChar l) \<noteq> EOF \<Longrightarrow> length (input (GetChar l)) < length (input l)"
  by (auto simp: GetChar_def stream_get_def split: list.splits)

function ParseString_loop :: "Lexer \<Rightarrow> (error + unit) \<times> Lexer" where
  "ParseString_loop l =
     (let l1 = GetChar l in
      if lookahead l1 = CHR 0x22 then (Inr (), l1)
      else if lookahead l1 = EOF then (Inl (ParserError None ''Unterminated string!''), l1)
      else if lookahead l1 = CHR 0x5C then
        (let l2 = GetChar l1 in
         if lookahead l2 = CHR ''n'' then ParseString_loop (l2\<lparr>str := str l2 @ [CHR 0x0A]\<rparr>)
         else if lookahead l2 = CHR ''t'' then ParseString_loop (l2\<lparr>str := str l2 @ [CHR 0x09]\<rparr>)
         else if lookahead l2 = CHR 0x5C then ParseString_loop (l2\<lparr>str := str l2 @ [CHR 0x5C]\<rparr>)
         else if lookahead l2 = CHR 0x22 then ParseString_loop (l2\<lparr>str := str l2 @ [CHR 0x22]\<rparr>)
         else (Inl (ParserError None ''Unknown escape sequence: {}''), l2))
      else ParseString_loop (l1\<lparr>str := str l1 @ [lookahead l1]\<rparr>))"
  by pat_completeness auto
termination
proof (relation "measure (\<lambda>l. length (input l))", goal_cases)
  case 1
  show ?case by simp
next
  case (2 l l1 l2)
  then show ?case
    using input_GetChar_less [of l1] input_GetChar_less [of l]
    by (auto simp: EOF_def)
next
  case (3 l l1 l2)
  then show ?case
    using input_GetChar_less [of l1] input_GetChar_less [of l]
    by (auto simp: EOF_def)
next
  case (4 l l1 l2)
  then show ?case
    using input_GetChar_less [of l1] input_GetChar_less [of l]
    by (auto simp: EOF_def)
next
  case (5 l l1 l2)
  then show ?case
    using input_GetChar_less [of l1] input_GetChar_less [of l]
    by (auto simp: EOF_def)
next
  case (6 l l1)
  then show ?case
    using input_GetChar_less [of l] by auto
qed

declare ParseString_loop.simps [simp del]

definition ParseString :: "Lexer \<Rightarrow> (error + unit) \<times> Lexer" where
  "ParseString l =
     (case ParseString_loop (l\<lparr>str := []\<rparr>) of
        (Inl e, l1) \<Rightarrow> (Inl e, l1)
      | (Inr _, l1) \<Rightarrow> (Inr (), GetChar l1))"

text \<open>
  The loop of \<open>ParseNumber\<close>, with its locals \<open>num\<close> and \<open>is_float\<close>.
\<close>

function ParseNumber_loop :: "Lexer \<Rightarrow> string \<Rightarrow> bool \<Rightarrow> Lexer \<times> string \<times> bool" where
  "ParseNumber_loop l num is_float =
     (let l1 = GetChar l in
      if lookahead l1 = CHR ''.'' then ParseNumber_loop l1 (num @ [lookahead l1]) True
      else if \<not> isdigit (lookahead l1) then (l1, num, is_float)
      else ParseNumber_loop l1 (num @ [lookahead l1]) is_float)"
  by pat_completeness auto
termination
proof (relation "measure (\<lambda>(l, num, is_float). length (input l))", goal_cases)
  case 1
  show ?case by simp
next
  case (2 l num is_float l1)
  then show ?case using input_GetChar_less [of l] by (auto simp: EOF_def)
next
  case (3 l num is_float l1)
  then show ?case using input_GetChar_less [of l] by (auto simp: EOF_def isdigit_def)
qed

declare ParseNumber_loop.simps [simp del]

text \<open>
  \<open>neg * std::stoi(num)\<close> is a product of two \<open>int\<close>s: it is taken in 32 bits.
\<close>

definition ParseNumber :: "Lexer \<Rightarrow> (error + TokenKind) \<times> Lexer" where
  "ParseNumber l =
     (let neg = (lookahead l = CHR ''-'');
          l0 = (if neg then GetChar l else l)
      in case ParseNumber_loop l0 [lookahead l0] False of
           (l1, num, is_float) \<Rightarrow>
             if is_float
             then (case stod num of
                     Inl e \<Rightarrow> (Inl e, l1)
                   | Inr f \<Rightarrow> (Inr FLOAT, l1\<lparr>float_number := (neg, f)\<rparr>))
             else (case stoi num of
                     Inl e \<Rightarrow> (Inl e, l1)
                   | Inr v \<Rightarrow> (Inr NUM, l1\<lparr>number := (if neg then - 1 else 1) * v\<rparr>)))"

function ParseIdentifier_loop :: "Lexer \<Rightarrow> string \<Rightarrow> Lexer \<times> string" where
  "ParseIdentifier_loop l s =
     (let l1 = GetChar l in
      if \<not> isalnum (lookahead l1) \<and> lookahead l1 \<noteq> CHR ''_'' then (l1, s)
      else ParseIdentifier_loop l1 (s @ [lookahead l1]))"
  by pat_completeness auto
termination
proof (relation "measure (\<lambda>(l, s). length (input l))", goal_cases)
  case 1
  show ?case by simp
next
  case (2 l s l1)
  then show ?case
    using input_GetChar_less [of l] by (auto simp: EOF_def isalnum_def isalpha_def isdigit_def)
qed

declare ParseIdentifier_loop.simps [simp del]

definition ParseIdentifier :: "Lexer \<Rightarrow> Lexer" where
  "ParseIdentifier l =
     (case ParseIdentifier_loop l [lookahead l] of
        (l1, s) \<Rightarrow> l1\<lparr>lex_id := s\<rparr>)"

definition MakeToken :: "Lexer \<Rightarrow> TokenKind \<Rightarrow> Token" where
  "MakeToken l k = \<lparr>kind = k, row = tok_begin_row l, col = tok_begin_col l\<rparr>"

definition RecordTokLoc :: "Lexer \<Rightarrow> Lexer" where
  "RecordTokLoc l = l\<lparr>tok_begin_row := cur_row l, tok_begin_col := cur_col l\<rparr>"

text \<open>The loop that skips a comment up to the end of its line.\<close>

function skip_comment :: "Lexer \<Rightarrow> Lexer" where
  "skip_comment l =
     (if lookahead l \<noteq> EOF \<and> lookahead l \<noteq> CHR 0x0A then skip_comment (GetChar l) else l)"
  by pat_completeness auto
termination
  by (relation "measure remaining") (auto simp: remaining_GetChar_less)

declare skip_comment.simps [simp del]

lemma remaining_skip_comment_le: "remaining (skip_comment l) \<le> remaining l"
proof (induction l rule: skip_comment.induct)
  case (1 l)
  show ?case
  proof (cases "lookahead l \<noteq> EOF \<and> lookahead l \<noteq> CHR 0x0A")
    case True
    with "1.IH" remaining_GetChar_le [of l] show ?thesis
      by (simp add: skip_comment.simps [of l])
  next
    case False
    then show ?thesis by (auto simp: skip_comment.simps [of l])
  qed
qed

lemma remaining_skip_comment_less:
  assumes "lookahead l = CHR ''#''"
  shows "remaining (skip_comment l) < remaining l"
proof -
  from assms have ne: "lookahead l \<noteq> EOF" "lookahead l \<noteq> CHR 0x0A"
    by (simp_all add: EOF_def)
  then have "skip_comment l = skip_comment (GetChar l)"
    by (simp add: skip_comment.simps [of l])
  with remaining_skip_comment_le [of "GetChar l"] remaining_GetChar_less [OF ne(1)]
  show ?thesis by simp
qed

function getNext :: "Lexer \<Rightarrow> (error + Token) \<times> Lexer" where
  "getNext l =
     (if lookahead l = CHR ''#'' then
        (let l1 = skip_comment l;
             l2 = (if lookahead l1 = CHR 0x0A then GetChar l1 else l1)
         in getNext l2)
      else if isspace (lookahead l) then getNext (GetChar l)
      else
        (let l0 = RecordTokLoc l; c = lookahead l0 in
         if c = EOF then (Inr (MakeToken l0 END), l0)
         else if c = CHR '';'' then (let l1 = GetChar l0 in (Inr (MakeToken l1 SEMICOLON), l1))
         else if c = CHR '','' then (let l1 = GetChar l0 in (Inr (MakeToken l1 COMMA), l1))
         else if c = CHR ''['' then (let l1 = GetChar l0 in (Inr (MakeToken l1 LBRACKET), l1))
         else if c = CHR '']'' then (let l1 = GetChar l0 in (Inr (MakeToken l1 RBRACKET), l1))
         else if c = CHR ''+'' then (let l1 = GetChar l0 in (Inr (MakeToken l1 PLUS), l1))
         else if c = CHR ''*'' then (let l1 = GetChar l0 in (Inr (MakeToken l1 TIMES), l1))
         else if c = CHR ''.'' then (let l1 = GetChar l0 in (Inr (MakeToken l1 DOT), l1))
         else if c = CHR 0x22 then
           (case ParseString l0 of
              (Inl e, l1) \<Rightarrow> (Inl e, l1)
            | (Inr _, l1) \<Rightarrow> (Inr (MakeToken l1 STRING), l1))
         else if isdigit c \<or> c = CHR ''-'' then
           (case ParseNumber l0 of
              (Inl e, l1) \<Rightarrow> (Inl e, l1)
            | (Inr k, l1) \<Rightarrow> (Inr (MakeToken l1 k), l1))
         else if isalpha c \<or> c = CHR ''_'' then
           (let l1 = ParseIdentifier l0 in (Inr (MakeToken l1 ID), l1))
         else (Inl (ParserError (Some (cur_row l0, cur_col l0))
                      ''No token beginning with {}''), l0)))"
  by pat_completeness auto
termination
proof (relation "measure remaining", goal_cases)
  case 1
  show ?case by simp
next
  case (2 l l1 l2)
  then show ?case
    using remaining_skip_comment_less [of l] remaining_GetChar_le [of l1]
    by (auto split: if_splits)
next
  case (3 l)
  then have "lookahead l \<noteq> EOF" by (auto simp: isspace_def EOF_def)
  then show ?case by (simp add: remaining_GetChar_less)
qed

declare getNext.simps [simp del]

subsection \<open>Program representation\<close>

text \<open>
  Modelled from the spec: the program types of \<open>tiny::t86\<close> (programbuilder.h, cpu.h and
  the instruction classes are not among the sources).  A register is \<open>R0 \<dots> Rn\<close> or one
  of \<open>BP\<close>, \<open>SP\<close>, \<open>IP\<close>; an operand is one of the forms of section 3 of the spec; an
  instruction is its mnemonic with zero to two operands.
\<close>

datatype Register = Reg nat | StackBasePointer | StackPointer | ProgramCounter

datatype Operand =
    OpReg Register
  | OpImm "64 word"
  | OpRegImm Register "64 word"
  | MemImm "64 word"
  | MemReg Register
  | MemRegImm Register "64 word"
  | MemRegReg Register Register
  | MemRegRegScaled Register Register "64 word"
  | MemRegImmReg Register "64 word" Register
  | MemRegImmRegScaled Register "64 word" Register "64 word"
  | MemRegScaled Register "64 word"

datatype Instruction =
    Nullary string
  | Unary string Operand
  | Binary string Operand Operand

subsection \<open>Parser state\<close>

record Parser =
  lex :: Lexer
  curtok :: Token
  program :: "Instruction list"
  data_words :: "64 word list"

text \<open>
  A member function of \<open>Parser\<close>: its result or the exception it throws, and the parser
  as it leaves it.
\<close>

type_synonym 'a parser = "Parser \<Rightarrow> (error + 'a) \<times> Parser"

definition returnP :: "'a \<Rightarrow> 'a parser" where
  "returnP x = (\<lambda>p. (Inr x, p))"

definition throwP :: "error \<Rightarrow> 'a parser" where
  "throwP e = (\<lambda>p. (Inl e, p))"

definition bindP :: "'a parser \<Rightarrow> ('a \<Rightarrow> 'b parser) \<Rightarrow> 'b parser" where
  "bindP m f = (\<lambda>p. case m p of (Inl e, p1) \<Rightarrow> (Inl e, p1) | (Inr x, p1) \<Rightarrow> f x p1)"

definition thenP :: "'a parser \<Rightarrow> 'b parser \<Rightarrow> 'b parser" where
  "thenP m k = bindP m (\<lambda>_. k)"

text \<open>Reads of the members: \<open>curtok.kind\<close>, \<open>lex.getId()\<close>, \<open>lex.getNumber()\<close>, \<open>lex.getStr()\<close>.\<close>

definition curKind :: "TokenKind parser" where
  "curKind = (\<lambda>p. (Inr (kind (curtok p)), p))"

definition getId :: "string parser" where
  "getId = (\<lambda>p. (Inr (lex_id (lex p)), p))"

definition getNumber :: "32 word parser" where
  "getNumber = (\<lambda>p. (Inr (number (lex p)), p))"

definition getStr :: "string parser" where
  "getStr = (\<lambda>p. (Inr (str (lex p)), p))"

text \<open>
  \<open>throw CreateError(msg)\<close>: a \<open>ParserError\<close> whose message starts with the row and
  column of the current token.  \<open>throw ParserError(msg)\<close> and \<open>ExpectTok\<close> have the message
  alone.
\<close>

definition throwCreateError :: "string \<Rightarrow> 'a parser" where
  "throwCreateError msg =
     (\<lambda>p. (Inl (ParserError (Some (row (curtok p), col (curtok p))) msg), p))"

definition ExpectTok :: "TokenKind \<Rightarrow> TokenKind \<Rightarrow> string \<Rightarrow> unit parser" where
  "ExpectTok expected tok message =
     (if expected \<noteq> tok then throwP (ParserError None message) else returnP ())"

definition GetNext :: "TokenKind parser" where
  "GetNext =
     (\<lambda>p. case getNext (lex p) of
            (Inl e, l1) \<Rightarrow> (Inl e, p\<lparr>lex := l1\<rparr>)
          | (Inr t, l1) \<Rightarrow> (Inr (kind t), p\<lparr>lex := l1, curtok := t\<rparr>))"

definition GetNextPrev :: "TokenKind parser" where
  "GetNextPrev =
     (\<lambda>p. case getNext (lex p) of
            (Inl e, l1) \<Rightarrow> (Inl e, p\<lparr>lex := l1\<rparr>)
          | (Inr t, l1) \<Rightarrow> (Inr (kind (curtok p)), p\<lparr>lex := l1, curtok := t\<rparr>))"

subsection \<open>Operands\<close>

text \<open>
  \<open>atoi\<close> on the rest of a register name (letters, digits and underscores): the value of
  the leading digits, 0 without one.  The index is kept unbounded.
\<close>

definition atoi :: "string \<Rightarrow> nat" where
  "atoi s = nat (digits_value (takeWhile isdigit s))"

definition getRegister :: "string \<Rightarrow> Register parser" where
  "getRegister regname =
     (if regname = ''BP'' then returnP StackBasePointer
      else if regname = ''SP'' then returnP StackPointer
      else if regname = ''IP'' then returnP ProgramCounter
      else if take 1 regname \<noteq> ''R''
      then throwCreateError ''Registers must begin with an R, unless IP, BP or SP, got {}''
      else returnP (Reg (atoi (drop 1 regname))))"

text \<open>An \<open>int\<close> converted to \<open>int64_t\<close> or \<open>uint64_t\<close>: sign extension.\<close>

definition imm64 :: "32 word \<Rightarrow> 64 word" where
  "imm64 v = scast v"

definition Register :: "Register parser" where
  "Register =
     bindP curKind (\<lambda>k.
       if k = ID
       then bindP getId (\<lambda>regname.
            bindP (getRegister regname) (\<lambda>reg.
            thenP GetNext (returnP reg)))
       else throwCreateError ''Expected R'')"

definition Imm :: "64 word parser" where
  "Imm =
     bindP curKind (\<lambda>k.
       if k = NUM
       then bindP getNumber (\<lambda>val. thenP GetNext (returnP (imm64 val)))
       else throwCreateError ''Expected i'')"

definition ImmOrRegister :: "Operand parser" where
  "ImmOrRegister =
     bindP curKind (\<lambda>k.
       if k = ID then bindP Register (\<lambda>r. returnP (OpReg r))
       else if k = NUM then bindP Imm (\<lambda>i. returnP (OpImm i))
       else throwCreateError ''Expected either i or R'')"

definition SimpleMemory :: "Operand parser" where
  "SimpleMemory =
     bindP curKind (\<lambda>k.
       if k = LBRACKET then
         thenP GetNext
        (bindP curKind (\<lambda>k1.
           if k1 = ID then
             bindP Register (\<lambda>inner.
             bindP curKind (\<lambda>k2.
               if k2 = PLUS then
                 thenP GetNext
                (bindP Imm (\<lambda>imm.
                 bindP curKind (\<lambda>k3.
                   if k3 \<noteq> RBRACKET then throwCreateError ''Expected end of ]''
                   else returnP (MemRegImm inner imm))))
               else if k2 \<noteq> RBRACKET then throwCreateError ''Expected end of ]''
               else thenP GetNext (returnP (MemReg inner))))
           else
             bindP Imm (\<lambda>inner.
             bindP curKind (\<lambda>k2.
               if k2 \<noteq> RBRACKET then throwCreateError ''Expected end of ]''
               else thenP GetNext (returnP (MemImm inner))))))
       else throwCreateError ''Expected either [i], [R] or [R + i]'')"

definition ImmOrRegisterOrSimpleMemory :: "Operand parser" where
  "ImmOrRegisterOrSimpleMemory =
     bindP curKind (\<lambda>k.
       if k = ID \<or> k = NUM then ImmOrRegister
       else if k = LBRACKET then SimpleMemory
       else throwCreateError ''Expected either i, R, [i], [R] or [R + i]'')"

text \<open>
  \<open>Operand\<close>, the operand parser of \<open>MOV\<close> and \<open>LEA\<close>.  Where control leaves the
  nested conditions without a \<open>return\<close> it reaches the macros \<open>UNREACHABLE\<close> and
  \<open>NOT_IMPLEMENTED\<close> (common/helpers.h is not among the sources): each ends the parse
  with an error of its own, which is not a \<open>ParserError\<close>.
\<close>

definition Operand_reg_imm_tail :: "Register \<Rightarrow> 64 word \<Rightarrow> Operand parser" where
  "Operand_reg_imm_tail reg val =
     bindP curKind (\<lambda>k.
       bindP (if k \<noteq> PLUS then returnP True
              else bindP GetNext (\<lambda>k1. returnP (k1 \<noteq> ID))) (\<lambda>bad.
       if bad
       then throwP (ParserError None
              ''Dereference of form [R1 + i ...] must always contain `+ R` after i'')
       else
         bindP getId (\<lambda>regname2.
         bindP (getRegister regname2) (\<lambda>reg2.
         bindP GetNext (\<lambda>k2.
           if k2 = RBRACKET then thenP GetNext (returnP (MemRegImmReg reg val reg2))
           else
             bindP curKind (\<lambda>k3.
             thenP (ExpectTok TIMES k3
                      ''After `[R1 + i + R2` there must always be a `*` or `]`'')
            (bindP GetNext (\<lambda>k4.
             thenP (ExpectTok NUM k4 ''After `[R1 + i + R2 *` there must always be an imm'')
            (bindP getNumber (\<lambda>val2.
             bindP GetNext (\<lambda>k5.
             thenP (ExpectTok RBRACKET k5 ''Expected ] to close dereference '')
            (thenP GetNext
            (returnP (MemRegImmRegScaled reg val reg2 (imm64 val2)))))))))))))))"

definition Operand :: "Operand parser" where
  "Operand =
     bindP curKind (\<lambda>k.
       if k = ID then
         bindP getId (\<lambda>regname.
         thenP GetNext
        (bindP curKind (\<lambda>k1.
           if k1 = PLUS then
             bindP GetNext (\<lambda>k2.
               if k2 \<noteq> NUM then throwCreateError ''After Reg + _ there can be only number''
               else
                 bindP getNumber (\<lambda>imm.
                 thenP GetNext
                (bindP (getRegister regname) (\<lambda>reg.
                 returnP (OpRegImm reg (imm64 imm))))))
           else bindP (getRegister regname) (\<lambda>reg. returnP (OpReg reg)))))
       else if k = NUM then
         bindP getNumber (\<lambda>imm. thenP GetNext (returnP (OpImm (imm64 imm))))
       else if k = LBRACKET then
         bindP GetNext (\<lambda>k1.
           if k1 = NUM then
             bindP getNumber (\<lambda>val.
             thenP GetNext (thenP GetNext (returnP (MemImm (imm64 val)))))
           else if k1 = ID then
             bindP getId (\<lambda>regname.
             bindP (getRegister regname) (\<lambda>reg.
             bindP GetNext (\<lambda>k2.
               if k2 = RBRACKET then thenP GetNext (returnP (MemReg reg))
               else if k2 = PLUS then
                 thenP GetNext
                (bindP curKind (\<lambda>k3.
                   if k3 = ID then
                     bindP getId (\<lambda>regname2.
                     bindP (getRegister regname2) (\<lambda>reg2.
                     bindP GetNext (\<lambda>k4.
                       if k4 = RBRACKET then thenP GetNext (returnP (MemRegReg reg reg2))
                       else if k4 = TIMES then
                         bindP GetNext (\<lambda>k5.
                           if k5 = NUM then
                             bindP getNumber (\<lambda>val.
                             bindP GetNext (\<lambda>k6.
                             thenP (ExpectTok RBRACKET k6
                                      ''Expected ] to close dereference'')
                            (returnP (MemRegRegScaled reg reg2 (imm64 val)))))
                           else throwP Unreachable)
                       else throwP Unreachable)))
                   else if k3 = NUM then
                     bindP getNumber (\<lambda>val.
                     bindP GetNext (\<lambda>k4.
                       if k4 = RBRACKET then thenP GetNext (returnP (MemRegImm reg (imm64 val)))
                       else Operand_reg_imm_tail reg (imm64 val)))
                   else throwP Unreachable))
               else if k2 = TIMES then
                 bindP GetNext (\<lambda>k3.
                 thenP (ExpectTok NUM k3 ''After [R1 * ...] there must always be an imm'')
                (bindP getNumber (\<lambda>val.
                 bindP GetNext (\<lambda>k4.
                   if k4 \<noteq> RBRACKET
                   then throwP (ParserError None ''Expected ] to close dereference'')
                   else thenP GetNext (returnP (MemRegScaled reg (imm64 val)))))))
               else throwP Unreachable)))
           else throwP NotImplemented)
       else throwP Unreachable)"

subsection \<open>Instructions\<close>

text \<open>
  \<open>Operand::getRegister\<close> on the destination of \<open>LEA\<close> (the class is not among the
  sources): the register of a register operand, an error of its own otherwise.
\<close>

definition Operand_getRegister :: "Operand \<Rightarrow> Register parser" where
  "Operand_getRegister op =
     (case op of OpReg r \<Rightarrow> returnP r | _ \<Rightarrow> throwP BadOperandAccess)"

text \<open>The macros \<open>PARSE_BINARY\<close>, \<open>PARSE_UNARY\<close> and \<open>PARSE_NULLARY\<close>.\<close>

definition PARSE_BINARY ::
  "string \<Rightarrow> Operand parser \<Rightarrow> Operand parser \<Rightarrow> Instruction parser" where
  "PARSE_BINARY ins_name DEST_PARSE FROM_PARSE =
     bindP DEST_PARSE (\<lambda>dest.
     bindP curKind (\<lambda>k.
       if k \<noteq> COMMA then throwCreateError ''Expected comma''
       else thenP GetNext
           (bindP FROM_PARSE (\<lambda>from. returnP (Binary ins_name dest from)))))"

definition PARSE_UNARY :: "string \<Rightarrow> Operand parser \<Rightarrow> Instruction parser" where
  "PARSE_UNARY ins_name OPERAND_PARSE =
     bindP OPERAND_PARSE (\<lambda>op. returnP (Unary ins_name op))"

definition RegisterOperand :: "Operand parser" where
  "RegisterOperand = bindP Register (\<lambda>r. returnP (OpReg r))"

text \<open>
  \<open>Instruction\<close> after it has read the mnemonic.  The chain of macro invocations tests
  the mnemonic against pairwise different names, so the names that share their operand
  parsers are tested together here.
\<close>

definition Instruction_operands :: "string \<Rightarrow> Instruction parser" where
  "Instruction_operands ins_name =
     (if ins_name = ''MOV'' then
        bindP Operand (\<lambda>dest.
        bindP curKind (\<lambda>k.
          if k \<noteq> COMMA then throwCreateError ''Expected comma''
          else thenP GetNext (bindP Operand (\<lambda>from. returnP (Binary ''MOV'' dest from)))))
      else if ins_name = ''LEA'' then
        bindP Operand (\<lambda>dest.
        bindP curKind (\<lambda>k.
          if k \<noteq> COMMA then throwCreateError ''Expected comma''
          else thenP GetNext
              (bindP Operand (\<lambda>from.
               bindP (Operand_getRegister dest) (\<lambda>r.
               returnP (Binary ''LEA'' (OpReg r) from))))))
      else if ins_name \<in> set [''ADD'', ''SUB'', ''MUL'', ''DIV'', ''IMUL'', ''IDIV'', ''AND'',
                                ''OR'', ''XOR'', ''LSH'', ''RSH'', ''CMP'']
      then PARSE_BINARY ins_name RegisterOperand ImmOrRegisterOrSimpleMemory
      else if ins_name = ''LOOP'' then PARSE_BINARY ins_name RegisterOperand ImmOrRegister
      else if ins_name \<in> set [''INC'', ''DEC'', ''NEG'', ''NOT'']
      then PARSE_UNARY ins_name RegisterOperand
      else if ins_name = ''JMP'' then PARSE_UNARY ins_name ImmOrRegister
      else if ins_name \<in> set [''JZ'', ''JNZ'', ''JE'', ''JNE'', ''JG'', ''JGE'', ''JL'', ''JLE'',
                                ''JA'', ''JAE'', ''JB'', ''JBE'', ''JO'', ''JNO'', ''JS'', ''JNS'']
      then PARSE_UNARY ins_name ImmOrRegisterOrSimpleMemory
      else if ins_name \<in> set [''CALL'', ''PUSH''] then PARSE_UNARY ins_name ImmOrRegister
      else if ins_name \<in> set [''POP'', ''PUTCHAR'', ''PUTNUM'', ''GETCHAR'']
      then PARSE_UNARY ins_name RegisterOperand
      else if ins_name \<in> set [''HALT'', ''NOP'', ''BKPT'', ''BREAK'', ''RET'']
      then returnP (Nullary ins_name)
      else if ins_name = ''DBG''
      then throwP (ParserError None ''DBG instruction is not supported'')
      else throwP (ParserError None ''Unknown instruction {}''))"

text \<open>
  The head of \<open>Instruction\<close>: an optional numeric address, then the mnemonic.
\<close>

definition Instruction_name :: "string parser" where
  "Instruction_name =
     bindP curKind (\<lambda>k.
     thenP (if k = NUM then thenP GetNextPrev (returnP ()) else returnP ())
    (bindP curKind (\<lambda>k1.
     thenP (ExpectTok ID k1 ''Expected register name'')
    (bindP getId (\<lambda>ins_name.
     thenP GetNextPrev (returnP ins_name))))))"

definition Instruction :: "Instruction parser" where
  "Instruction = bindP Instruction_name Instruction_operands"

subsection \<open>Progress of the lexer and of the operand parsers\<close>

lemma GetChar_str_update [simp]: "GetChar (l\<lparr>str := s\<rparr>) = (GetChar l)\<lparr>str := s\<rparr>"
  by (simp add: GetChar_def stream_get_def split: list.splits)

lemma remaining_updates [simp]:
  "remaining (l\<lparr>str := s\<rparr>) = remaining l"
  "remaining (l\<lparr>lex_id := s\<rparr>) = remaining l"
  "remaining (l\<lparr>number := v\<rparr>) = remaining l"
  "remaining (l\<lparr>float_number := f\<rparr>) = remaining l"
  "remaining (l\<lparr>tok_begin_row := r, tok_begin_col := c\<rparr>) = remaining l"
  by (simp_all add: remaining_def)

lemma remaining_ParseString_loop: "remaining (snd (ParseString_loop l)) \<le> remaining (GetChar l)"
proof (induction l rule: ParseString_loop.induct)
  case (1 l)
  let ?l1 = "GetChar l"
  let ?l2 = "GetChar ?l1"
  have le1: "remaining (GetChar ?l1) \<le> remaining ?l1"
    and le2: "remaining (GetChar ?l2) \<le> remaining ?l2"
    by (rule remaining_GetChar_le)+
  show ?case
    using "1.IH" (1-4) [OF refl _ _ _ refl] "1.IH" (5) [OF refl] le1 le2
    by (subst ParseString_loop.simps) (auto simp: Let_def)
qed

lemma remaining_ParseNumber_loop:
  "remaining (fst (ParseNumber_loop l num is_float)) \<le> remaining (GetChar l)"
proof (induction l num is_float rule: ParseNumber_loop.induct)
  case (1 l num is_float)
  have le1: "remaining (GetChar (GetChar l)) \<le> remaining (GetChar l)"
    by (rule remaining_GetChar_le)
  show ?case
    using "1.IH" (1) [OF refl] "1.IH" (2) [OF refl] le1
    by (subst ParseNumber_loop.simps) (auto simp: Let_def)
qed

lemma remaining_ParseIdentifier_loop:
  "remaining (fst (ParseIdentifier_loop l s)) \<le> remaining (GetChar l)"
proof (induction l s rule: ParseIdentifier_loop.induct)
  case (1 l s)
  have le1: "remaining (GetChar (GetChar l)) \<le> remaining (GetChar l)"
    by (rule remaining_GetChar_le)
  show ?case
    using "1.IH" [OF refl] le1
    by (subst ParseIdentifier_loop.simps) (auto simp: Let_def)
qed

lemma remaining_ParseString:
  assumes "lookahead l \<noteq> EOF"
  shows "remaining (snd (ParseString l)) < remaining l"
proof -
  have "remaining (snd (ParseString_loop (l\<lparr>str := []\<rparr>))) \<le> remaining (GetChar l)"
    using remaining_ParseString_loop [of "l\<lparr>str := []\<rparr>"] by simp
  moreover have "remaining (GetChar (snd (ParseString_loop (l\<lparr>str := []\<rparr>))))
                 \<le> remaining (snd (ParseString_loop (l\<lparr>str := []\<rparr>)))"
    by (rule remaining_GetChar_le)
  ultimately show ?thesis
    using remaining_GetChar_less [OF assms]
    by (auto simp: ParseString_def split: prod.splits sum.splits)
qed

lemma remaining_ParseNumber:
  assumes "lookahead l \<noteq> EOF"
  shows "remaining (snd (ParseNumber l)) < remaining l"
proof -
  let ?l0 = "if lookahead l = CHR ''-'' then GetChar l else l"
  have "remaining (GetChar ?l0) < remaining l"
    using remaining_GetChar_less [OF assms] remaining_GetChar_le [of "GetChar l"] by auto
  with remaining_ParseNumber_loop [of ?l0 "[lookahead ?l0]" False]
  show ?thesis
    by (auto simp: ParseNumber_def Let_def split: prod.splits sum.splits)
qed

lemma remaining_ParseIdentifier:
  assumes "lookahead l \<noteq> EOF"
  shows "remaining (ParseIdentifier l) < remaining l"
  using remaining_ParseIdentifier_loop [of l "[lookahead l]"] remaining_GetChar_less [OF assms]
  by (auto simp: ParseIdentifier_def split: prod.splits)

text \<open>
  A call of \<open>getNext\<close> that returns a token other than \<open>END\<close> has consumed input; one
  that returns \<open>END\<close> has not produced any.
\<close>

lemma remaining_getNext:
  "getNext l = (Inr t, l1) \<Longrightarrow>
   (if kind t = END then remaining l1 \<le> remaining l else remaining l1 < remaining l)"
proof (induction l arbitrary: t l1 rule: getNext.induct)
  case (1 l)
  show ?case
  proof (cases "lookahead l = CHR ''#''")
    case True
    let ?l1 = "skip_comment l"
    let ?l2 = "if lookahead ?l1 = CHR 0x0A then GetChar ?l1 else ?l1"
    from True "1.prems" have g: "getNext ?l2 = (Inr t, l1)"
      by (subst (asm) getNext.simps) (simp add: Let_def)
    have "remaining ?l2 < remaining l"
      using remaining_skip_comment_less [OF True] remaining_GetChar_le [of ?l1] by auto
    with "1.IH" (1) [OF True refl refl g] show ?thesis by (auto split: if_splits)
  next
    case notc: False
    show ?thesis
    proof (cases "isspace (lookahead l)")
      case True
      with notc "1.prems" have g: "getNext (GetChar l) = (Inr t, l1)"
        by (subst (asm) getNext.simps) simp
      from True have "lookahead l \<noteq> EOF" by (auto simp: isspace_def EOF_def)
      then have "remaining (GetChar l) < remaining l" by (rule remaining_GetChar_less)
      with "1.IH" (2) [OF notc True g] show ?thesis by (auto split: if_splits)
    next
      case nots: False
      let ?l0 = "RecordTokLoc l"
      have r0: "remaining ?l0 = remaining l" "lookahead ?l0 = lookahead l"
        by (simp_all add: RecordTokLoc_def)
      show ?thesis
      proof (cases "lookahead l = EOF")
        case True
        with notc nots "1.prems" show ?thesis
          by (subst (asm) getNext.simps) (auto simp: Let_def r0 MakeToken_def)
      next
        case False
        then have ne: "lookahead ?l0 \<noteq> EOF" by (simp add: r0)
        note lt = remaining_GetChar_less [OF ne] remaining_ParseString [OF ne]
          remaining_ParseNumber [OF ne] remaining_ParseIdentifier [OF ne]
        from notc nots False "1.prems" lt show ?thesis
          by (subst (asm) getNext.simps)
             (auto simp: Let_def r0 MakeToken_def split: if_splits prod.splits sum.splits)
      qed
    qed
  qed
qed

text \<open>
  The measure of the parser's loops: twice what the lexer still holds, plus one while
  the current token is not \<open>END\<close>.  A parser function is \<open>steady\<close> when a successful
  call never increases it.
\<close>

definition tokens_left :: "Parser \<Rightarrow> nat" where
  "tokens_left p = 2 * remaining (lex p) + (if kind (curtok p) = END then 0 else 1)"

definition steady :: "'a parser \<Rightarrow> bool" where
  "steady m = (\<forall>p x p1. m p = (Inr x, p1) \<longrightarrow> tokens_left p1 \<le> tokens_left p)"

lemma tokens_left_updates [simp]:
  "tokens_left (p\<lparr>program := is\<rparr>) = tokens_left p"
  "tokens_left (p\<lparr>data_words := ws\<rparr>) = tokens_left p"
  by (simp_all add: tokens_left_def)

lemma GetNext_progress:
  assumes "GetNext p = (Inr k, p1)"
  shows "tokens_left p1 \<le> tokens_left p"
    and "kind (curtok p) \<noteq> END \<Longrightarrow> tokens_left p1 < tokens_left p"
  using assms remaining_getNext [of "lex p"]
  by (auto simp: GetNext_def tokens_left_def split: prod.splits sum.splits if_splits)

lemma GetNextPrev_progress:
  assumes "GetNextPrev p = (Inr k, p1)"
  shows "tokens_left p1 \<le> tokens_left p"
    and "kind (curtok p) \<noteq> END \<Longrightarrow> tokens_left p1 < tokens_left p"
    and "k = kind (curtok p)"
  using assms remaining_getNext [of "lex p"]
  by (auto simp: GetNextPrev_def tokens_left_def split: prod.splits sum.splits if_splits)

lemma steady_returnP [simp, intro!]: "steady (returnP x)"
  by (simp add: steady_def returnP_def)

lemma steady_throwP [simp, intro!]: "steady (throwP e)"
  by (simp add: steady_def throwP_def)

lemma steady_throwCreateError [simp, intro!]: "steady (throwCreateError msg)"
  by (simp add: steady_def throwCreateError_def)

lemma steady_bindP [intro!]:
  assumes "steady m" "\<And>x. steady (f x)"
  shows "steady (bindP m f)"
  unfolding steady_def bindP_def
proof (intro allI impI)
  fix p x p2
  assume "(case m p of (Inl e, p1) \<Rightarrow> (Inl e, p1) | (Inr x, p1) \<Rightarrow> f x p1) = (Inr x, p2)"
  then obtain y p1 where "m p = (Inr y, p1)" "f y p1 = (Inr x, p2)"
    by (auto split: prod.splits sum.splits)
  with assms show "tokens_left p2 \<le> tokens_left p"
    unfolding steady_def by (meson order_trans)
qed

lemma steady_thenP [intro!]: "steady m \<Longrightarrow> steady k \<Longrightarrow> steady (thenP m k)"
  by (auto simp: thenP_def)

lemma steady_if [intro!]: "steady m \<Longrightarrow> steady k \<Longrightarrow> steady (if b then m else k)"
  by simp

lemma steady_reads [simp, intro!]:
  "steady curKind" "steady getId" "steady getNumber" "steady getStr"
  by (simp_all add: steady_def curKind_def getId_def getNumber_def getStr_def)

lemma steady_GetNext [simp, intro!]: "steady GetNext" "steady GetNextPrev"
  using GetNext_progress(1) GetNextPrev_progress(1) by (auto simp: steady_def)

lemma steady_ExpectTok [simp, intro!]: "steady (ExpectTok a b msg)"
  by (simp add: ExpectTok_def)

lemma steady_getRegister [simp, intro!]: "steady (getRegister regname)"
  by (simp add: getRegister_def)

lemma steady_Register [simp, intro!]: "steady Register"
  unfolding Register_def by (intro steady_bindP steady_if steady_thenP) simp_all

lemma steady_Imm [simp, intro!]: "steady Imm"
  unfolding Imm_def by (intro steady_bindP steady_if steady_thenP) simp_all

lemma steady_ImmOrRegister [simp, intro!]: "steady ImmOrRegister"
  unfolding ImmOrRegister_def by (intro steady_bindP steady_if steady_thenP) simp_all

lemma steady_SimpleMemory [simp, intro!]: "steady SimpleMemory"
  unfolding SimpleMemory_def by (intro steady_bindP steady_if steady_thenP) simp_all

lemma steady_ImmOrRegisterOrSimpleMemory [simp, intro!]: "steady ImmOrRegisterOrSimpleMemory"
  unfolding ImmOrRegisterOrSimpleMemory_def
  by (intro steady_bindP steady_if steady_thenP) simp_all

lemma steady_Operand_reg_imm_tail [simp, intro!]: "steady (Operand_reg_imm_tail reg val)"
  unfolding Operand_reg_imm_tail_def by (intro steady_bindP steady_if steady_thenP) simp_all

lemma steady_Operand [simp, intro!]: "steady Operand"
  unfolding Operand_def by (intro steady_bindP steady_if steady_thenP) simp_all

lemma steady_Operand_getRegister [simp, intro!]: "steady (Operand_getRegister op)"
  by (cases op) (simp_all add: Operand_getRegister_def)

lemma steady_RegisterOperand [simp, intro!]: "steady RegisterOperand"
  unfolding RegisterOperand_def by (intro steady_bindP) simp_all

lemma steady_PARSE_BINARY [intro!]:
  "steady d \<Longrightarrow> steady f \<Longrightarrow> steady (PARSE_BINARY n d f)"
  unfolding PARSE_BINARY_def by (intro steady_bindP steady_if steady_thenP) simp_all

lemma steady_PARSE_UNARY [intro!]: "steady f \<Longrightarrow> steady (PARSE_UNARY n f)"
  unfolding PARSE_UNARY_def by (intro steady_bindP) simp_all

lemma steady_Instruction_operands [simp, intro!]: "steady (Instruction_operands ins_name)"
  unfolding Instruction_operands_def
  by (intro steady_bindP steady_if steady_thenP steady_PARSE_BINARY steady_PARSE_UNARY) simp_all

lemma Instruction_name_progress:
  assumes "Instruction_name p = (Inr n, p1)" and "kind (curtok p) \<noteq> END"
  shows "tokens_left p1 < tokens_left p"
proof (cases "kind (curtok p) = NUM")
  case True
  from assms(1) True obtain k pa where a: "GetNextPrev p = (Inr k, pa)"
    and b: "tokens_left p1 \<le> tokens_left pa"
    using GetNextPrev_progress(1)
    by (fastforce simp: Instruction_name_def bindP_def thenP_def curKind_def returnP_def
          ExpectTok_def throwP_def getId_def split: prod.splits sum.splits if_splits)
  from GetNextPrev_progress(2) [OF a assms(2)] b show ?thesis by simp
next
  case False
  with assms(1) obtain k where "GetNextPrev p = (Inr k, p1)"
    by (auto simp: Instruction_name_def bindP_def thenP_def curKind_def returnP_def
          ExpectTok_def throwP_def getId_def split: prod.splits sum.splits if_splits)
  from GetNextPrev_progress(2) [OF this assms(2)] show ?thesis .
qed

lemma Instruction_progress:
  assumes "Instruction p = (Inr i, p1)" and "kind (curtok p) \<noteq> END"
  shows "tokens_left p1 < tokens_left p"
proof -
  from assms(1) obtain n pa where a: "Instruction_name p = (Inr n, pa)"
    and b: "Instruction_operands n pa = (Inr i, p1)"
    by (auto simp: Instruction_def bindP_def split: prod.splits sum.splits)
  from b have "tokens_left p1 \<le> tokens_left pa"
    using steady_Instruction_operands [of n] by (auto simp: steady_def)
  with Instruction_name_progress [OF a assms(2)] show ?thesis by simp
qed

subsection \<open>Sections and the whole file\<close>

function Text :: "unit parser" where
  "Text p =
     (if kind (curtok p) = NUM \<or> kind (curtok p) = ID
      then (case Instruction p of
              (Inl e, p1) \<Rightarrow> (Inl e, p1)
            | (Inr ins, p1) \<Rightarrow> Text (p1\<lparr>program := program p1 @ [ins]\<rparr>))
      else (Inr (), p))"
  by pat_completeness auto
termination
proof (relation "measure tokens_left", goal_cases)
  case 1
  show ?case by simp
next
  case (2 p x p1 ins)
  then have "kind (curtok p) \<noteq> END" by auto
  with 2 Instruction_progress [of p ins p1] show ?case by simp
qed

declare Text.simps [simp del]

text \<open>A character of a string literal stored as a word of the data section (\<open>char\<close> to
  \<open>int64_t\<close>).\<close>

definition char_word :: "char \<Rightarrow> 64 word" where
  "char_word c = scast (of_char c :: 8 word)"

function Data :: "unit parser" where
  "Data p =
     (if kind (curtok p) = STRING \<or> kind (curtok p) = NUM
      then (case GetNext
                   (if kind (curtok p) = STRING
                    then p\<lparr>data_words := data_words p @ map char_word (str (lex p))\<rparr>
                    else p\<lparr>data_words := data_words p @ [imm64 (number (lex p))]\<rparr>) of
              (Inl e, p1) \<Rightarrow> (Inl e, p1)
            | (Inr _, p1) \<Rightarrow> Data p1)
      else (Inr (), p))"
  by pat_completeness auto
termination
proof (relation "measure tokens_left", goal_cases)
  case 1
  show ?case by simp
next
  case (2 p x p1 k)
  let ?p0 = "if kind (curtok p) = STRING
             then p\<lparr>data_words := data_words p @ map char_word (str (lex p))\<rparr>
             else p\<lparr>data_words := data_words p @ [imm64 (number (lex p))]\<rparr>"
  from 2 have a: "GetNext ?p0 = (Inr k, p1)" by simp
  from 2 have ne: "kind (curtok ?p0) \<noteq> END" by auto
  have "tokens_left ?p0 = tokens_left p" by simp
  with GetNext_progress(2) [OF a ne] show ?case by simp
qed

declare Data.simps [simp del]

function Section_skip :: "unit parser" where
  "Section_skip p =
     (if kind (curtok p) \<noteq> DOT \<and> kind (curtok p) \<noteq> END
      then (case GetNext p of
              (Inl e, p1) \<Rightarrow> (Inl e, p1)
            | (Inr _, p1) \<Rightarrow> Section_skip p1)
      else (Inr (), p))"
  by pat_completeness auto
termination
proof (relation "measure tokens_left", goal_cases)
  case 1
  show ?case by simp
next
  case (2 p x p1 k)
  then show ?case
    using GetNext_progress(2) [of p k p1] by auto
qed

declare Section_skip.simps [simp del]

definition Section :: "unit parser" where
  "Section =
     bindP curKind (\<lambda>k.
     thenP (ExpectTok ID k ''Expected .section_name'')
    (bindP getId (\<lambda>section_name.
     thenP GetNext
    (if section_name = ''text'' then Text
     else if section_name = ''data'' then Data
     else Section_skip))))"

lemma steady_Text [simp, intro!]: "steady Text"
  unfolding steady_def
proof (intro allI impI)
  fix p x p1
  assume "Text p = (Inr x, p1)"
  then show "tokens_left p1 \<le> tokens_left p"
  proof (induction p rule: Text.induct)
    case (1 p)
    show ?case
    proof (cases "kind (curtok p) = NUM \<or> kind (curtok p) = ID")
      case False
      with "1.prems" show ?thesis by (simp add: Text.simps [of p])
    next
      case True
      with "1.prems" obtain ins pa where a: "Instruction p = (Inr ins, pa)"
        and b: "Text (pa\<lparr>program := program pa @ [ins]\<rparr>) = (Inr x, p1)"
        by (auto simp: Text.simps [of p] split: prod.splits sum.splits)
      from True have "kind (curtok p) \<noteq> END" by auto
      from Instruction_progress [OF a this] "1.IH" [OF True a [symmetric] refl b]
      show ?thesis by simp
    qed
  qed
qed

lemma steady_Data [simp, intro!]: "steady Data"
  unfolding steady_def
proof (intro allI impI)
  fix p x p1
  assume "Data p = (Inr x, p1)"
  then show "tokens_left p1 \<le> tokens_left p"
  proof (induction p rule: Data.induct)
    case (1 p)
    show ?case
    proof (cases "kind (curtok p) = STRING \<or> kind (curtok p) = NUM")
      case False
      with "1.prems" show ?thesis by (simp add: Data.simps [of p])
    next
      case True
      let ?p0 = "if kind (curtok p) = STRING
                 then p\<lparr>data_words := data_words p @ map char_word (str (lex p))\<rparr>
                 else p\<lparr>data_words := data_words p @ [imm64 (number (lex p))]\<rparr>"
      from True "1.prems" obtain k pa where a: "GetNext ?p0 = (Inr k, pa)"
        and b: "Data pa = (Inr x, p1)"
        by (auto simp: Data.simps [of p] split: prod.splits sum.splits)
      have "tokens_left ?p0 = tokens_left p" by simp
      with GetNext_progress(1) [OF a] "1.IH" [OF True a [symmetric] refl b]
      show ?thesis by simp
    qed
  qed
qed

lemma steady_Section_skip [simp, intro!]: "steady Section_skip"
  unfolding steady_def
proof (intro allI impI)
  fix p x p1
  assume "Section_skip p = (Inr x, p1)"
  then show "tokens_left p1 \<le> tokens_left p"
  proof (induction p rule: Section_skip.induct)
    case (1 p)
    show ?case
    proof (cases "kind (curtok p) \<noteq> DOT \<and> kind (curtok p) \<noteq> END")
      case False
      with "1.prems" show ?thesis by (simp add: Section_skip.simps [of p])
    next
      case True
      with "1.prems" obtain k pa where a: "GetNext p = (Inr k, pa)"
        and b: "Section_skip pa = (Inr x, p1)"
        by (auto simp: Section_skip.simps [of p] split: prod.splits sum.splits)
      from GetNext_progress(1) [OF a] "1.IH" [OF True a [symmetric] refl b]
      show ?thesis by simp
    qed
  qed
qed

lemma steady_Section [simp, intro!]: "steady Section"
  unfolding Section_def by (intro steady_bindP steady_if steady_thenP) simp_all

text \<open>The loop of \<open>Parse\<close>: \<open>while (GetNextPrev() == TokenKind::DOT) Section();\<close>\<close>

function Parse_loop :: "unit parser" where
  "Parse_loop p =
     (case GetNextPrev p of
        (Inl e, p1) \<Rightarrow> (Inl e, p1)
      | (Inr prev, p1) \<Rightarrow>
          if prev = DOT
          then (case Section p1 of
                  (Inl e, p2) \<Rightarrow> (Inl e, p2)
                | (Inr _, p2) \<Rightarrow> Parse_loop p2)
          else (Inr (), p1))"
  by pat_completeness auto
termination
proof (relation "measure tokens_left", goal_cases)
  case 1
  show ?case by simp
next
  case (2 p x p1 prev y p2 u)
  then have a: "GetNextPrev p = (Inr DOT, p1)" and b: "Section p1 = (Inr u, p2)"
    by simp_all
  from GetNextPrev_progress(3) [OF a] have "kind (curtok p) \<noteq> END" by simp
  from GetNextPrev_progress(2) [OF a this] have "tokens_left p1 < tokens_left p" .
  moreover from b steady_Section have "tokens_left p2 \<le> tokens_left p1"
    unfolding steady_def by blast
  ultimately show ?case by simp
qed

declare Parse_loop.simps [simp del]

definition Parse :: "unit parser" where
  "Parse =
     bindP curKind (\<lambda>k.
       if k \<noteq> DOT then throwP (ParserError None ''File does not contain any sections'')
       else Parse_loop)"

text \<open>
  The constructor of \<open>Parser\<close> reads the first token; \<open>Parse\<close> returns the program and
  the data section.  \<open>Parse_text\<close> is the two on the text of a file.
\<close>

definition Parser_init :: "string \<Rightarrow> error + Parser" where
  "Parser_init s =
     (case getNext (Lexer_init s) of
        (Inl e, l) \<Rightarrow> Inl e
      | (Inr t, l) \<Rightarrow> Inr \<lparr>lex = l, curtok = t, program = [], data_words = []\<rparr>)"

definition Parse_text :: "string \<Rightarrow> error + Instruction list \<times> 64 word list" where
  "Parse_text s =
     (case Parser_init s of
        Inl e \<Rightarrow> Inl e
      | Inr p \<Rightarrow>
          (case Parse p of
             (Inl e, p1) \<Rightarrow> Inl e
           | (Inr _, p1) \<Rightarrow> Inr (program p1, data_words p1)))"

section \<open>Properties of the assembly parser\<close>

subsection \<open>Semicolons in the text section\<close>

text \<open>
  C4.  The program of the spec's first scenario, \<open>MOV R0, 1; MOV R1, 2; HALT\<close>.  Without
  the semicolons it parses into its three instructions.  With them the parse also
  succeeds, but returns the first instruction alone: \<open>Text\<close> stops at a token that is
  neither \<open>NUM\<close> nor \<open>ID\<close>, and the loop of \<open>Parse\<close> ends at a token that is not a dot.
\<close>

theorem Parse_stops_at_semicolon:
  "Parse_text ''.text MOV R0, 1 MOV R1, 2 HALT'' =
     Inr ([Binary ''MOV'' (OpReg (Reg 0)) (OpImm 1),
           Binary ''MOV'' (OpReg (Reg 1)) (OpImm 2), Nullary ''HALT''], []) \<and>
   Parse_text ''.text MOV R0, 1; MOV R1, 2; HALT'' =
     Inr ([Binary ''MOV'' (OpReg (Reg 0)) (OpImm 1)], [])"
proof (intro conjI)
  show "Parse_text ''.text MOV R0, 1 MOV R1, 2 HALT'' =
     Inr ([Binary ''MOV'' (OpReg (Reg 0)) (OpImm 1),
           Binary ''MOV'' (OpReg (Reg 1)) (OpImm 2), Nullary ''HALT''], [])"
    by code_simp
  show "Parse_text ''.text MOV R0, 1; MOV R1, 2; HALT'' =
     Inr ([Binary ''MOV'' (OpReg (Reg 0)) (OpImm 1)], [])"
    by code_simp
qed

subsection \<open>Simple memory operands\<close>

text \<open>
  C5.  \<open>ADD R0, [R1 + 4]\<close> followed by \<open>HALT\<close>: the parse succeeds and returns the \<open>ADD\<close>
  alone.  \<open>SimpleMemory\<close> returns from its \<open>[reg + imm]\<close> branch with the closing bracket
  still the current token, where its \<open>[reg]\<close> and \<open>[imm]\<close> branches fetch the next token
  first; with \<open>[R1]\<close> the same text parses into both instructions.
\<close>

theorem SimpleMemory_keeps_closing_bracket:
  "Parse_text ''.text ADD R0, [R1 + 4] HALT'' =
     Inr ([Binary ''ADD'' (OpReg (Reg 0)) (MemRegImm (Reg 1) 4)], []) \<and>
   Parse_text ''.text ADD R0, [R1] HALT'' =
     Inr ([Binary ''ADD'' (OpReg (Reg 0)) (MemReg (Reg 1)), Nullary ''HALT''], [])"
proof (intro conjI)
  show "Parse_text ''.text ADD R0, [R1 + 4] HALT'' =
     Inr ([Binary ''ADD'' (OpReg (Reg 0)) (MemRegImm (Reg 1) 4)], [])"
    by code_simp
  show "Parse_text ''.text ADD R0, [R1] HALT'' =
     Inr ([Binary ''ADD'' (OpReg (Reg 0)) (MemReg (Reg 1)), Nullary ''HALT''], [])"
    by code_simp
qed

subsection \<open>Malformed input\<close>

text \<open>
  C6.  Three texts outside the grammar.  \<open>MOV ;\<close> ends in \<open>UNREACHABLE\<close>; a \<open>-\<close> followed
  by a letter ends in the \<open>std::invalid_argument\<close> of \<open>std::stoi\<close>; the operand
  \<open>[5 + 1]\<close> is taken as \<open>[5]\<close> and the parse then fails with a \<open>ParserError\<close> whose
  message has no row and column.
\<close>

theorem Parse_malformed_operands:
  "Parse_text ''.text MOV ;'' = Inl Unreachable \<and>
   Parse_text ''.text MOV R0, -x'' = Inl StdInvalidArgument \<and>
   Parse_text ''.text MOV R0, [5 + 1]'' = Inl (ParserError None ''Expected register name'')"
proof (intro conjI)
  show "Parse_text ''.text MOV ;'' = Inl Unreachable"
    by code_simp
  show "Parse_text ''.text MOV R0, -x'' = Inl StdInvalidArgument"
    by code_simp
  show "Parse_text ''.text MOV R0, [5 + 1]'' = Inl (ParserError None ''Expected register name'')"
    by code_simp
qed

subsection \<open>Numeric literals in the data section\<close>

text \<open>
  The literals that \<open>std::stoi\<close> converts into an \<open>int\<close>: decimal digits of a value up
  to \<open>2^31 - 1\<close>, with or without a leading minus sign; the value of such a literal; and
  the text of a data section that holds the literals of a list, a space before each.
  \<open>at_literals\<close> says that the lexer stands before that rest of the text.
\<close>

definition int_literal :: "string \<Rightarrow> bool" where
  "int_literal s =
     (case s of
        [] \<Rightarrow> False
      | c # r \<Rightarrow>
          if c = CHR ''-'' then r \<noteq> [] \<and> list_all isdigit r \<and> digits_value r \<le> 2147483647
          else list_all isdigit s \<and> digits_value s \<le> 2147483647)"

definition literal_value :: "string \<Rightarrow> int" where
  "literal_value s =
     (case s of
        [] \<Rightarrow> 0
      | c # r \<Rightarrow> if c = CHR ''-'' then - digits_value r else digits_value s)"

definition spaced :: "string list \<Rightarrow> string" where
  "spaced lits = concat (map (\<lambda>s. CHR '' '' # s) lits)"

fun at_literals :: "Lexer \<Rightarrow> string list \<Rightarrow> bool" where
  "at_literals l [] = (lookahead l = EOF)"
| "at_literals l (s # ss) = (lookahead l = CHR '' '' \<and> input l = s @ spaced ss)"

lemma lookahead_GetChar:
  "lookahead (GetChar l) = (case input l of [] \<Rightarrow> EOF | c # _ \<Rightarrow> c)"
  by (simp add: GetChar_def stream_get_def split: list.splits)

lemma input_GetChar: "input (GetChar l) = tl (input l)"
  by (simp add: GetChar_def stream_get_def split: list.splits)

lemma number_GetChar: "number (GetChar l) = number l"
  by (simp add: GetChar_def stream_get_def split: list.splits)

lemma RecordTokLoc_fields:
  "lookahead (RecordTokLoc l) = lookahead l" "input (RecordTokLoc l) = input l"
  "number (RecordTokLoc l) = number l" "lex_id (RecordTokLoc l) = lex_id l"
  by (simp_all add: RecordTokLoc_def)

lemma isdigit_not_special:
  assumes "isdigit c"
  shows "c \<noteq> CHR ''#''" "\<not> isspace c" "c \<noteq> EOF" "c \<noteq> CHR '';''" "c \<noteq> CHR '',''"
    "c \<noteq> CHR ''[''" "c \<noteq> CHR '']''" "c \<noteq> CHR ''+''" "c \<noteq> CHR ''*''" "c \<noteq> CHR ''.''"
    "c \<noteq> CHR 0x22" "c \<noteq> CHR ''-''"
  using assms by (auto simp: isdigit_def isspace_def EOF_def)

lemma ParseNumber_loop_digits:
  assumes "\<forall>c\<in>set (input l). isdigit c"
  shows "\<exists>l1. ParseNumber_loop l num False = (l1, num @ input l, False) \<and>
              lookahead l1 = EOF \<and> input l1 = []"
  using assms
proof (induction "input l" arbitrary: l num)
  case Nil
  from Nil(1) [symmetric] have e: "input l = []" .
  then have "lookahead (GetChar l) = EOF" "input (GetChar l) = []"
    by (simp_all add: lookahead_GetChar input_GetChar)
  with e show ?case
    by (subst ParseNumber_loop.simps) (simp add: Let_def EOF_def isdigit_def)
next
  case (Cons c cs)
  from Cons(2) [symmetric] have l1: "lookahead (GetChar l) = c" "input (GetChar l) = cs"
    by (simp_all add: lookahead_GetChar input_GetChar)
  from Cons(2) [symmetric] Cons.prems have c: "isdigit c" and cs: "\<forall>c\<in>set cs. isdigit c"
    by simp_all
  from Cons(1) [of "GetChar l" "num @ [c]"] l1 cs
  obtain l2 where "ParseNumber_loop (GetChar l) (num @ [c]) False = (l2, (num @ [c]) @ cs, False)"
    "lookahead l2 = EOF" "input l2 = []" by auto
  moreover have "ParseNumber_loop l num False = ParseNumber_loop (GetChar l) (num @ [c]) False"
    using l1 c isdigit_not_special(10) [OF c]
    by (subst ParseNumber_loop.simps) (simp add: Let_def)
  ultimately show ?case using Cons(2) [symmetric] by simp
qed

lemma stoi_digits:
  assumes "isdigit d" "\<forall>c\<in>set ds. isdigit c" "digits_value (d # ds) \<le> 2147483647"
    and "0 \<le> digits_value (d # ds)"
  shows "stoi (d # ds) = Inr (word_of_int (digits_value (d # ds)))"
proof -
  from assms isdigit_not_special [OF assms(1)] show ?thesis
    by (simp add: stoi_def Let_def takeWhile_eq_all_conv [THEN iffD2])
qed

lemma digit_val_range: "isdigit c \<Longrightarrow> 0 \<le> digit_val c \<and> digit_val c \<le> 9"
  by (auto simp: isdigit_def digit_val_def)

lemma foldl_digits_nonneg:
  "0 \<le> a \<Longrightarrow> \<forall>c\<in>set ds. 0 \<le> digit_val c \<Longrightarrow>
   0 \<le> foldl (\<lambda>v c. 10 * v + digit_val c) a ds"
  by (induction ds arbitrary: a) auto

lemma digits_value_nonneg:
  assumes "\<forall>c\<in>set ds. isdigit c"
  shows "0 \<le> digits_value ds"
  using assms foldl_digits_nonneg [of 0 ds] digit_val_range
  by (auto simp: digits_value_def)

lemma getNext_EOF:
  assumes "lookahead l = EOF"
  shows "getNext l = (Inr (MakeToken (RecordTokLoc l) END), RecordTokLoc l)"
  using assms
  by (subst getNext.simps) (simp add: Let_def EOF_def isspace_def RecordTokLoc_fields)

lemma getNext_space:
  assumes "isspace (lookahead l)"
  shows "getNext l = getNext (GetChar l)"
  using assms
  by (subst getNext.simps) (auto simp: isspace_def)

lemma getNext_DOT:
  assumes "lookahead l = CHR ''.''"
  shows "getNext l = (Inr (MakeToken (GetChar (RecordTokLoc l)) DOT), GetChar (RecordTokLoc l))"
  using assms
  by (subst getNext.simps) (simp add: Let_def EOF_def isspace_def RecordTokLoc_fields)

lemma ParseIdentifier_loop_step:
  assumes "input l = c # cs" "isalnum c \<or> c = CHR ''_''"
  shows "ParseIdentifier_loop l s = ParseIdentifier_loop (GetChar l) (s @ [c])"
  using assms
  by (subst ParseIdentifier_loop.simps) (auto simp: Let_def lookahead_GetChar)

lemma ParseIdentifier_loop_stop:
  assumes "input l = c # cs" "\<not> isalnum c" "c \<noteq> CHR ''_''"
  shows "ParseIdentifier_loop l s = (GetChar l, s)"
  using assms
  by (subst ParseIdentifier_loop.simps) (auto simp: Let_def lookahead_GetChar)

lemma getNext_data:
  assumes "lookahead l = CHR ''d''" "input l = ''ata '' @ rest"
  shows "\<exists>t l1. getNext l = (Inr t, l1) \<and> kind t = ID \<and> lex_id l1 = ''data'' \<and>
              lookahead l1 = CHR '' '' \<and> input l1 = rest"
proof -
  let ?l0 = "RecordTokLoc l"
  let ?l1 = "GetChar ?l0"
  let ?l2 = "GetChar ?l1"
  let ?l3 = "GetChar ?l2"
  let ?l4 = "GetChar ?l3"
  have i0: "input ?l0 = CHR ''a'' # ''ta '' @ rest"
    using assms by (simp add: RecordTokLoc_fields)
  have i1: "input ?l1 = CHR ''t'' # ''a '' @ rest"
    using i0 by (simp add: input_GetChar)
  have i2: "input ?l2 = CHR ''a'' # '' '' @ rest"
    using i1 by (simp add: input_GetChar)
  have i3: "input ?l3 = CHR '' '' # rest"
    using i2 by (simp add: input_GetChar)
  have "ParseIdentifier_loop ?l0 ''d'' = (?l4, ''data'')"
    using ParseIdentifier_loop_step [OF i0, of "''d''"]
      ParseIdentifier_loop_step [OF i1, of "''da''"]
      ParseIdentifier_loop_step [OF i2, of "''dat''"]
      ParseIdentifier_loop_stop [OF i3, of "''data''"]
    by (simp add: isalnum_def isalpha_def isdigit_def)
  moreover have "lookahead ?l4 = CHR '' ''" "input ?l4 = rest"
    using i3 by (simp_all add: lookahead_GetChar input_GetChar)
  ultimately show ?thesis
    using assms(1)
    by (subst getNext.simps)
       (simp add: Let_def RecordTokLoc_fields MakeToken_def EOF_def isspace_def isdigit_def
          isalpha_def ParseIdentifier_def)
qed

lemma sint_word_of_int_32:
  "- (2 ^ 31) \<le> v \<Longrightarrow> v < 2 ^ 31 \<Longrightarrow> sint (word_of_int v :: 32 word) = v"
  by (simp add: sint_sbintrunc' signed_take_bit_int_eq_self)

lemma sint_word_of_int_64:
  "- (2 ^ 63) \<le> v \<Longrightarrow> v < 2 ^ 63 \<Longrightarrow> sint (word_of_int v :: 64 word) = v"
  by (simp add: sint_sbintrunc' signed_take_bit_int_eq_self)

lemma imm64_word_of_int:
  "- (2 ^ 31) \<le> v \<Longrightarrow> v < 2 ^ 31 \<Longrightarrow> imm64 (word_of_int v) = word_of_int v"
  by (simp add: imm64_def scast_eq sint_word_of_int_32)

lemma Data_single:
  assumes "kind (curtok p) = NUM" "lookahead (lex p) = EOF"
  shows "Data p =
    (Inr (), p\<lparr>data_words := data_words p @ [imm64 (number (lex p))],
               lex := RecordTokLoc (lex p),
               curtok := MakeToken (RecordTokLoc (lex p)) END\<rparr>)"
proof -
  let ?p0 = "p\<lparr>data_words := data_words p @ [imm64 (number (lex p))]\<rparr>"
  let ?p1 = "?p0\<lparr>lex := RecordTokLoc (lex p), curtok := MakeToken (RecordTokLoc (lex p)) END\<rparr>"
  have g: "GetNext ?p0 = (Inr END, ?p1)"
    using assms(2) by (simp add: GetNext_def getNext_EOF MakeToken_def)
  have "Data ?p1 = (Inr (), ?p1)"
    by (subst Data.simps) (simp add: MakeToken_def)
  with assms(1) g show ?thesis
    by (subst Data.simps) simp
qed

lemma Parse_loop_END:
  assumes "kind (curtok p) \<noteq> DOT" "lookahead (lex p) = EOF"
  shows "Parse_loop p =
    (Inr (), p\<lparr>lex := RecordTokLoc (lex p), curtok := MakeToken (RecordTokLoc (lex p)) END\<rparr>)"
  using assms
  by (subst Parse_loop.simps) (simp add: GetNextPrev_def getNext_EOF)

lemma spaced_simps: "spaced [] = []" "spaced (s # ss) = CHR '' '' # s @ spaced ss"
  by (simp_all add: spaced_def)

lemma at_literals_number [simp]: "at_literals (l\<lparr>number := v\<rparr>) ss = at_literals l ss"
  by (cases ss) simp_all

lemma at_literals_RecordTokLoc [simp]: "at_literals (RecordTokLoc l) ss = at_literals l ss"
  by (cases ss) (simp_all add: RecordTokLoc_fields)

lemma ParseNumber_loop_digits_sep:
  assumes "input l = ds @ c # rest" "\<forall>x\<in>set ds. isdigit x" "\<not> isdigit c" "c \<noteq> CHR ''.''"
  shows "\<exists>l1. ParseNumber_loop l num False = (l1, num @ ds, False) \<and>
              lookahead l1 = c \<and> input l1 = rest"
  using assms(1,2)
proof (induction ds arbitrary: l num)
  case Nil
  then have "lookahead (GetChar l) = c" "input (GetChar l) = rest"
    by (simp_all add: lookahead_GetChar input_GetChar)
  with assms(3,4) show ?case
    by (subst ParseNumber_loop.simps) (simp add: Let_def)
next
  case (Cons d ds)
  then have l1: "lookahead (GetChar l) = d" "input (GetChar l) = ds @ c # rest"
    by (simp_all add: lookahead_GetChar input_GetChar)
  from Cons.prems have d: "isdigit d" and ds: "\<forall>x\<in>set ds. isdigit x" by simp_all
  from Cons.IH [OF l1(2) ds, of "num @ [d]"]
  obtain l2 where "ParseNumber_loop (GetChar l) (num @ [d]) False = (l2, (num @ [d]) @ ds, False)"
    "lookahead l2 = c" "input l2 = rest" by auto
  moreover have "ParseNumber_loop l num False = ParseNumber_loop (GetChar l) (num @ [d]) False"
    using l1 d isdigit_not_special(10) [OF d]
    by (subst ParseNumber_loop.simps) (simp add: Let_def)
  ultimately show ?case by simp
qed

lemma ParseNumber_loop_literals:
  assumes "input l = ds @ spaced ss" "\<forall>x\<in>set ds. isdigit x"
  shows "\<exists>l1. ParseNumber_loop l num False = (l1, num @ ds, False) \<and> at_literals l1 ss"
proof (cases ss)
  case Nil
  with assms have "\<forall>c\<in>set (input l). isdigit c" "input l = ds" by (simp_all add: spaced_simps)
  with ParseNumber_loop_digits [of l num] Nil show ?thesis by auto
next
  case (Cons s ss')
  with assms(1) have "input l = ds @ CHR '' '' # (s @ spaced ss')" by (simp add: spaced_simps)
  from ParseNumber_loop_digits_sep [OF this assms(2), of num] Cons show ?thesis
    by (auto simp: isdigit_def)
qed

lemma ParseNumber_literal:
  assumes "lookahead l # input l = s @ spaced ss" "int_literal s"
  shows "\<exists>l1. ParseNumber l = (Inr NUM, l1) \<and> number l1 = word_of_int (literal_value s) \<and>
              at_literals l1 ss"
proof -
  from assms(2) obtain c r where s: "s = c # r" by (cases s) (auto simp: int_literal_def)
  with assms(1) have la: "lookahead l = c" and inp: "input l = r @ spaced ss" by simp_all
  show ?thesis
  proof (cases "c = CHR ''-''")
    case True
    with assms(2) s obtain d ds where r: "r = d # ds" and d: "isdigit d"
      and ds: "\<forall>x\<in>set ds. isdigit x" and v: "digits_value (d # ds) \<le> 2147483647"
      by (cases r) (auto simp: int_literal_def list_all_iff)
    let ?l0 = "GetChar l"
    have l0: "lookahead ?l0 = d" "input ?l0 = ds @ spaced ss"
      using inp r by (simp_all add: lookahead_GetChar input_GetChar)
    from ParseNumber_loop_literals [OF l0(2) ds, of "[d]"]
    obtain l1 where l1: "ParseNumber_loop ?l0 [d] False = (l1, d # ds, False)" "at_literals l1 ss"
      by auto
    have "0 \<le> digits_value (d # ds)"
      using d ds by (intro digits_value_nonneg) simp
    from stoi_digits [OF d ds v this] l1 l0 la True s r
    show ?thesis by (simp add: ParseNumber_def Let_def literal_value_def)
  next
    case False
    with assms(2) s have c: "isdigit c" and r: "\<forall>x\<in>set r. isdigit x"
      and v: "digits_value (c # r) \<le> 2147483647"
      by (auto simp: int_literal_def list_all_iff)
    from ParseNumber_loop_literals [OF inp r, of "[c]"]
    obtain l1 where l1: "ParseNumber_loop l [c] False = (l1, c # r, False)" "at_literals l1 ss"
      by auto
    have "0 \<le> digits_value (c # r)"
      using c r by (intro digits_value_nonneg) simp
    from stoi_digits [OF c r v this] l1 la False s
    show ?thesis by (simp add: ParseNumber_def Let_def literal_value_def)
  qed
qed

lemma getNext_literal:
  assumes "lookahead l # input l = s @ spaced ss" "int_literal s"
  shows "\<exists>t l1. getNext l = (Inr t, l1) \<and> kind t = NUM \<and>
              number l1 = word_of_int (literal_value s) \<and> at_literals l1 ss"
proof -
  from assms(2) obtain c r where s: "s = c # r" by (cases s) (auto simp: int_literal_def)
  with assms(1) have la: "lookahead l = c" by simp
  have c: "c = CHR ''-'' \<or> isdigit c"
    using assms(2) s by (auto simp: int_literal_def split: if_splits)
  have "lookahead (RecordTokLoc l) # input (RecordTokLoc l) = s @ spaced ss"
    using assms(1) by (simp add: RecordTokLoc_fields)
  from ParseNumber_literal [OF this assms(2)] obtain l1 where
    l1: "ParseNumber (RecordTokLoc l) = (Inr NUM, l1)"
    "number l1 = word_of_int (literal_value s)" "at_literals l1 ss"
    by auto
  from c show ?thesis
  proof
    assume "c = CHR ''-''"
    with l1 la show ?thesis
      by (subst getNext.simps)
         (simp add: Let_def RecordTokLoc_fields MakeToken_def EOF_def isspace_def)
  next
    assume d: "isdigit c"
    with l1 la isdigit_not_special [OF d] show ?thesis
      by (subst getNext.simps) (simp add: Let_def RecordTokLoc_fields MakeToken_def)
  qed
qed

lemma getNext_at_literals:
  assumes "at_literals l (s # ss)" "int_literal s"
  shows "\<exists>t l1. getNext l = (Inr t, l1) \<and> kind t = NUM \<and>
              number l1 = word_of_int (literal_value s) \<and> at_literals l1 ss"
proof -
  from assms(2) obtain c r where s: "s = c # r" by (cases s) (auto simp: int_literal_def)
  from assms(1) have l: "lookahead l = CHR '' ''" "input l = s @ spaced ss" by simp_all
  have "lookahead (GetChar l) # input (GetChar l) = s @ spaced ss"
    using l s by (simp add: lookahead_GetChar input_GetChar)
  from getNext_literal [OF this assms(2)] getNext_space [of l] l(1)
  show ?thesis by (simp add: isspace_def)
qed

lemma literal_value_range:
  assumes "int_literal s"
  shows "- (2 ^ 31) \<le> literal_value s" "literal_value s < 2 ^ 31"
proof -
  from assms obtain c r where s: "s = c # r" by (cases s) (auto simp: int_literal_def)
  have "- 2147483647 \<le> literal_value s \<and> literal_value s \<le> 2147483647"
  proof (cases "c = CHR ''-''")
    case True
    with assms s have "\<forall>x\<in>set r. isdigit x" "digits_value r \<le> 2147483647"
      by (auto simp: int_literal_def list_all_iff)
    with digits_value_nonneg [of r] True s show ?thesis by (simp add: literal_value_def)
  next
    case False
    with assms s have "\<forall>x\<in>set s. isdigit x" "digits_value s \<le> 2147483647"
      by (auto simp: int_literal_def list_all_iff)
    with digits_value_nonneg [of s] False s show ?thesis by (simp add: literal_value_def)
  qed
  then show "- (2 ^ 31) \<le> literal_value s" "literal_value s < 2 ^ 31" by simp_all
qed

lemma Data_literals:
  assumes "kind (curtok p) = NUM" "at_literals (lex p) lits" "\<forall>s\<in>set lits. int_literal s"
  shows "\<exists>p1. Data p = (Inr (), p1) \<and> program p1 = program p \<and>
              data_words p1 = data_words p @ imm64 (number (lex p)) #
                                map (\<lambda>s. word_of_int (literal_value s)) lits \<and>
              kind (curtok p1) = END \<and> lookahead (lex p1) = EOF"
  using assms
proof (induction lits arbitrary: p)
  case Nil
  then show ?case
    using Data_single [of p] by (simp add: MakeToken_def RecordTokLoc_fields)
next
  case (Cons s ss)
  let ?p0 = "p\<lparr>data_words := data_words p @ [imm64 (number (lex p))]\<rparr>"
  from Cons.prems have s: "int_literal s" and ss: "\<forall>s\<in>set ss. int_literal s" by simp_all
  from getNext_at_literals [OF Cons.prems(2) s] obtain t l1 where
    g: "getNext (lex p) = (Inr t, l1)" "kind t = NUM"
       "number l1 = word_of_int (literal_value s)" "at_literals l1 ss" by blast
  let ?p1 = "?p0\<lparr>lex := l1, curtok := t\<rparr>"
  have n: "GetNext ?p0 = (Inr NUM, ?p1)"
    using g(1,2) by (simp add: GetNext_def)
  from Cons.IH [of ?p1] g ss obtain p2 where
    p2: "Data ?p1 = (Inr (), p2)" "program p2 = program p"
        "data_words p2 = (data_words p @ [imm64 (number (lex p))]) @ imm64 (number l1) #
                            map (\<lambda>s. word_of_int (literal_value s)) ss"
        "kind (curtok p2) = END" "lookahead (lex p2) = EOF"
    by auto
  have "imm64 (number l1) = word_of_int (literal_value s)"
    using g(3) literal_value_range [OF s] by (simp add: imm64_word_of_int)
  moreover have "Data p = Data ?p1"
    using Cons.prems(1) n by (subst Data.simps) simp
  ultimately show ?case using p2 by simp
qed

lemma Section_data_literals:
  assumes a: "at_literals (lex p) (s # ss)" and lits: "\<forall>x\<in>set (s # ss). int_literal x"
    and id: "lex_id (lex p) = ''data''" "kind (curtok p) = ID"
  shows "\<exists>p1. Section p = (Inr (), p1) \<and> program p1 = program p \<and>
              data_words p1 = data_words p @ map (\<lambda>s. word_of_int (literal_value s)) (s # ss) \<and>
              kind (curtok p1) = END \<and> lookahead (lex p1) = EOF"
proof -
  from lits have s: "int_literal s" and ss: "\<forall>x\<in>set ss. int_literal x" by simp_all
  from getNext_at_literals [OF a s] obtain t l1 where
    g: "getNext (lex p) = (Inr t, l1)" "kind t = NUM"
       "number l1 = word_of_int (literal_value s)" "at_literals l1 ss" by blast
  let ?p1 = "p\<lparr>lex := l1, curtok := t\<rparr>"
  have n: "GetNext p = (Inr NUM, ?p1)"
    using g(1,2) by (simp add: GetNext_def)
  from Data_literals [of ?p1 ss] g ss obtain p2 where
    p2: "Data ?p1 = (Inr (), p2)" "program p2 = program p"
        "data_words p2 = data_words p @ imm64 (number l1) #
                            map (\<lambda>s. word_of_int (literal_value s)) ss"
        "kind (curtok p2) = END" "lookahead (lex p2) = EOF"
    by auto
  have v: "imm64 (number l1) = word_of_int (literal_value s)"
    using g(3) literal_value_range [OF s] by (simp add: imm64_word_of_int)
  have "Section p = (Inr (), p2)"
    using n p2(1) id
    by (simp add: Section_def bindP_def thenP_def curKind_def ExpectTok_def returnP_def getId_def)
  with p2 v show ?thesis by simp
qed

lemma Parse_text_data_literals:
  assumes "\<forall>x\<in>set (s # ss). int_literal x"
  shows "Parse_text (''.data'' @ spaced (s # ss)) =
           Inr ([], map (\<lambda>s. word_of_int (literal_value s)) (s # ss))"
proof -
  let ?rest = "s @ spaced ss"
  have text_eq: "''.data'' @ spaced (s # ss) = ''.data '' @ ?rest" by (simp add: spaced_simps)
  let ?L = "Lexer_init (''.data '' @ ?rest)"
  have L: "lookahead ?L = CHR ''.''" "input ?L = ''data '' @ ?rest"
    by (simp_all add: Lexer_init_def stream_get_def)
  let ?l1 = "GetChar (RecordTokLoc ?L)"
  have l1: "lookahead ?l1 = CHR ''d''" "input ?l1 = ''ata '' @ ?rest"
    using L by (simp_all add: lookahead_GetChar input_GetChar RecordTokLoc_fields)
  let ?p0 = "\<lparr>lex = ?l1, curtok = MakeToken ?l1 DOT, program = [], data_words = []\<rparr>"
  have init: "Parser_init (''.data '' @ ?rest) = Inr ?p0"
    using getNext_DOT [OF L(1)] by (simp add: Parser_init_def)
  from getNext_data [OF l1] obtain t2 l2 where
    t2: "getNext ?l1 = (Inr t2, l2)" "kind t2 = ID" "lex_id l2 = ''data''"
        "lookahead l2 = CHR '' ''" "input l2 = ?rest" by blast
  let ?p1 = "?p0\<lparr>lex := l2, curtok := t2\<rparr>"
  have gp: "GetNextPrev ?p0 = (Inr DOT, ?p1)"
    using t2(1) by (simp add: GetNextPrev_def MakeToken_def)
  have "at_literals (lex ?p1) (s # ss)" using t2(4,5) by simp
  from Section_data_literals [OF this assms] t2(2,3) obtain p2 where
    p2: "Section ?p1 = (Inr (), p2)" "program p2 = []"
        "data_words p2 = map (\<lambda>s. word_of_int (literal_value s)) (s # ss)"
        "kind (curtok p2) = END" "lookahead (lex p2) = EOF"
    by auto
  have "Parse_loop p2 = (Inr (), p2\<lparr>lex := RecordTokLoc (lex p2),
                                    curtok := MakeToken (RecordTokLoc (lex p2)) END\<rparr>)"
    using p2(4,5) by (intro Parse_loop_END) simp_all
  with gp p2 have "Parse_loop ?p0 = (Inr (), p2\<lparr>lex := RecordTokLoc (lex p2),
                                    curtok := MakeToken (RecordTokLoc (lex p2)) END\<rparr>)"
    by (subst Parse_loop.simps) simp
  then have "Parse ?p0 = (Inr (), p2\<lparr>lex := RecordTokLoc (lex p2),
                                    curtok := MakeToken (RecordTokLoc (lex p2)) END\<rparr>)"
    by (simp add: Parse_def bindP_def curKind_def MakeToken_def)
  with init p2 show ?thesis unfolding text_eq by (simp add: Parse_text_def)
qed

lemma Parse_text_data_empty: "Parse_text ''.data'' = Inr ([], [])"
  by code_simp

text \<open>
  C7, as the code has it.  The lexer keeps the value of a numeric literal in an \<open>int\<close>
  obtained from \<open>std::stoi\<close>.  A data section of decimal literals, each of a value up to
  \<open>2^31 - 1\<close> with or without a leading minus sign, is accepted, and its words are the
  values of the literals, in order, each as a 64-bit signed word.
\<close>

theorem Data_accepts_int_literals:
  assumes "\<forall>s\<in>set lits. int_literal s"
  shows "Parse_text (''.data'' @ spaced lits) =
           Inr ([], map (\<lambda>s. word_of_int (literal_value s)) lits) \<and>
         (\<forall>s\<in>set lits. sint (word_of_int (literal_value s) :: 64 word) = literal_value s)"
proof (intro conjI ballI)
  show "Parse_text (''.data'' @ spaced lits) =
           Inr ([], map (\<lambda>s. word_of_int (literal_value s)) lits)"
  proof (cases lits)
    case Nil
    then show ?thesis using Parse_text_data_empty by (simp add: spaced_simps)
  next
    case (Cons s ss)
    with assms show ?thesis using Parse_text_data_literals [of s ss] by simp
  qed
next
  fix s assume "s \<in> set lits"
  with assms have "int_literal s" by simp
  from literal_value_range [OF this]
  show "sint (word_of_int (literal_value s) :: 64 word) = literal_value s"
    by (intro sint_word_of_int_64) simp_all
qed

theorem Data_accepts_int_literals_witness:
  "int_literal ''2147483647'' \<and> int_literal ''-2147483647'' \<and> int_literal ''0'' \<and>
   Parse_text ''.data 2147483647 -2147483647 0'' = Inr ([], [2147483647, - 2147483647, 0])"
proof -
  have h: "int_literal ''2147483647''" "int_literal ''-2147483647''" "int_literal ''0''"
    by (simp_all add: int_literal_def isdigit_def digits_value_def digit_val_def)
  have v: "literal_value ''2147483647'' = 2147483647"
    "literal_value ''-2147483647'' = - 2147483647" "literal_value ''0'' = 0"
    by (simp_all add: literal_value_def digits_value_def digit_val_def)
  from Data_accepts_int_literals [of "[''2147483647'', ''-2147483647'', ''0'']"] h v
  show ?thesis by (simp add: spaced_def)
qed

text \<open>
  C7 as stated fails: literals within the range of a 64-bit signed word and outside the
  one above end the parse with the \<open>std::out_of_range\<close> of \<open>std::stoi\<close>.
\<close>

theorem Data_rejects_wider_literals:
  "(3000000000 :: int) \<le> 2 ^ 63 - 1 \<and>
   Parse_text ''.data 3000000000'' = Inl StdOutOfRange \<and>
   - (2 ^ 63) \<le> (- 2147483648 :: int) \<and>
   Parse_text ''.data -2147483648'' = Inl StdOutOfRange"
proof (intro conjI)
  show "(3000000000 :: int) \<le> 2 ^ 63 - 1" by simp
  show "Parse_text ''.data 3000000000'' = Inl StdOutOfRange" by code_simp
  show "- (2 ^ 63) \<le> (- 2147483648 :: int)" by simp
  show "Parse_text ''.data -2147483648'' = Inl StdOutOfRange" by code_simp
qed

section \<open>Type reconstruction (debugger/Source/Source.cpp)\<close>

subsection \<open>Debugging information entries\<close>

text \<open>
  Modelled from the spec: \<open>Die.h\<close> is not part of the sources at hand.  A DIE has a tag,
  attributes keyed by their kind and an ordered list of children; an attribute is a tagged
  variant.  \<open>FindDieAttribute<T>\<close> returns the attribute of kind \<open>T\<close> of a DIE, or null.
\<close>

datatype TAG =
    TAG_compile_unit
  | TAG_function
  | TAG_scope
  | TAG_variable
  | TAG_primitive_type
  | TAG_structured_type
  | TAG_pointer_type

datatype LocExpr =
    Push_imm "64 word"
  | Push_reg string
  | Base_offset "64 word"
  | Add
  | Deref

record ATTR_member =
  m_name :: string
  m_type_id :: "64 word"
  m_offset :: "64 word"

datatype DIE_ATTR =
    ATTR_name string
  | ATTR_id "64 word"
  | ATTR_begin_addr "64 word"
  | ATTR_end_addr "64 word"
  | ATTR_size "64 word"
  | ATTR_type "64 word"
  | ATTR_members "ATTR_member list"
  | ATTR_location_expr "LocExpr list"

datatype DIE = DIE (get_tag: TAG) (attributes: "DIE_ATTR list") (children: "DIE list")

fun get_if_ATTR_name :: "DIE_ATTR \<Rightarrow> string option" where
  "get_if_ATTR_name (ATTR_name n) = Some n"
| "get_if_ATTR_name _ = None"

fun get_if_ATTR_id :: "DIE_ATTR \<Rightarrow> 64 word option" where
  "get_if_ATTR_id (ATTR_id i) = Some i"
| "get_if_ATTR_id _ = None"

fun get_if_ATTR_size :: "DIE_ATTR \<Rightarrow> 64 word option" where
  "get_if_ATTR_size (ATTR_size s) = Some s"
| "get_if_ATTR_size _ = None"

fun get_if_ATTR_type :: "DIE_ATTR \<Rightarrow> 64 word option" where
  "get_if_ATTR_type (ATTR_type t) = Some t"
| "get_if_ATTR_type _ = None"

fun get_if_ATTR_members :: "DIE_ATTR \<Rightarrow> ATTR_member list option" where
  "get_if_ATTR_members (ATTR_members m) = Some m"
| "get_if_ATTR_members _ = None"

fun first_of :: "('a \<Rightarrow> 'b option) \<Rightarrow> 'a list \<Rightarrow> 'b option" where
  "first_of f [] = None"
| "first_of f (x # xs) = (case f x of Some y \<Rightarrow> Some y | None \<Rightarrow> first_of f xs)"

definition FindDieAttribute :: "(DIE_ATTR \<Rightarrow> 'a option) \<Rightarrow> DIE \<Rightarrow> 'a option" where
  "FindDieAttribute get_if die = first_of get_if (attributes die)"

text \<open>
  \<open>FindDIEById\<close>: the DIE itself if its \<open>id\<close> attribute is the one looked for, otherwise the
  first hit among its children, in order.
\<close>

fun FindDIEById :: "DIE \<Rightarrow> 64 word \<Rightarrow> DIE option"
  and FindDIEById_children :: "DIE list \<Rightarrow> 64 word \<Rightarrow> DIE option" where
  "FindDIEById (DIE t as cs) i =
     (if FindDieAttribute get_if_ATTR_id (DIE t as cs) = Some i then Some (DIE t as cs)
      else FindDIEById_children cs i)"
| "FindDIEById_children [] i = None"
| "FindDIEById_children (c # cs) i =
     (case FindDIEById c i of
        Some found \<Rightarrow> Some found
      | None \<Rightarrow> FindDIEById_children cs i)"

subsection \<open>Types\<close>

text \<open>
  Modelled from the spec: \<open>Type.h\<close> is not part of the sources at hand.  A type is a
  primitive type (category and size), a structured type (name, size and members, each
  member with a name, its own type if that could be reconstructed, and an offset), or a
  pointer type (id and name of the pointee, size).  The categories of primitive types are
  resolved from a name by \<open>ToPrimitiveType\<close>, which the functions below take as their
  first argument.
\<close>

datatype PrimitiveKind = SIGNED | UNSIGNED | FLOAT | CHAR | BOOL

datatype Type =
    PrimitiveType PrimitiveKind "64 word"
  | StructuredType string "64 word" "StructuredMember list"
  | PointerType "64 word" string "64 word"
and StructuredMember =
    StructuredMember string "Type option" "64 word"

record Source =
  top_die :: "DIE option"
  cached_types :: "(64 word \<times> Type) list"

subsection \<open>ReconstructTypeInformation\<close>

text \<open>
  The recursion of \<open>ReconstructTypeInformation\<close> follows the type ids of members, which
  may lead anywhere in the tree: a structured type with a member of its own type never
  reaches the cache insertion and recurses forever.  The model therefore counts the depth
  of the recursion down from a bound and returns \<open>None\<close> when the bound is used up.
  \<open>cached_types\<close> is a mutable member, so the source is threaded through and returned;
  an error is returned with the source as it was left.
\<close>

fun ReconstructTypeInformation ::
    "(string \<Rightarrow> PrimitiveKind option) \<Rightarrow> nat \<Rightarrow> Source \<Rightarrow> 64 word \<Rightarrow>
       ((error + Type option) \<times> Source) option"
  and ReconstructMembers ::
    "(string \<Rightarrow> PrimitiveKind option) \<Rightarrow> nat \<Rightarrow> Source \<Rightarrow> ATTR_member list \<Rightarrow>
       ((error + StructuredMember list) \<times> Source) option" where
  "ReconstructTypeInformation ToPrimitiveType 0 src i = None"
| "ReconstructTypeInformation ToPrimitiveType (Suc depth) src i =
     (case map_of (cached_types src) i of
        Some t \<Rightarrow> Some (Inr (Some t), src)
      | None \<Rightarrow>
     (case top_die src of
        None \<Rightarrow> Some (Inl EmptyOptionalAccess, src)
      | Some the_top_die \<Rightarrow>
     (case FindDIEById the_top_die i of
        None \<Rightarrow> Some (Inr None, src)
      | Some type_die \<Rightarrow>
          if get_tag type_die = TAG_primitive_type then
            (case FindDieAttribute get_if_ATTR_name type_die of
               None \<Rightarrow> Some (Inr None, src)
             | Some name \<Rightarrow>
            (case ToPrimitiveType name of
               None \<Rightarrow> Some (Inr None, src)
             | Some primitive_type \<Rightarrow>
            (case FindDieAttribute get_if_ATTR_size type_die of
               None \<Rightarrow> Some (Inr None, src)
             | Some sz \<Rightarrow> Some (Inr (Some (PrimitiveType primitive_type sz)), src))))
          else if get_tag type_die = TAG_structured_type then
            (case FindDieAttribute get_if_ATTR_name type_die of
               None \<Rightarrow> Some (Inr None, src)
             | Some name \<Rightarrow>
            (case FindDieAttribute get_if_ATTR_size type_die of
               None \<Rightarrow> Some (Inr (Some (StructuredType name 0 [])), src)
             | Some sz \<Rightarrow>
            (case FindDieAttribute get_if_ATTR_members type_die of
               None \<Rightarrow> Some (Inr (Some (StructuredType name sz [])), src)
             | Some members \<Rightarrow>
            (case ReconstructMembers ToPrimitiveType depth src members of
               None \<Rightarrow> None
             | Some (Inl e, src1) \<Rightarrow> Some (Inl e, src1)
             | Some (Inr members_vec, src1) \<Rightarrow>
                 let result = StructuredType name sz members_vec
                 in Some (Inr (Some result),
                          src1\<lparr>cached_types := map_emplace i result (cached_types src1)\<rparr>)))))
          else if get_tag type_die = TAG_pointer_type then
            (case FindDieAttribute get_if_ATTR_type type_die of
               None \<Rightarrow> Some (Inr None, src)
             | Some pointing_to \<Rightarrow>
            (case (FindDieAttribute get_if_ATTR_size type_die, FindDIEById the_top_die pointing_to) of
               (Some sz, Some pointed_die) \<Rightarrow>
                 (case FindDieAttribute get_if_ATTR_name pointed_die of
                    None \<Rightarrow> Some (Inr None, src)
                  | Some name \<Rightarrow>
                      let ptr = PointerType pointing_to name sz
                      in Some (Inr (Some ptr),
                               src\<lparr>cached_types := map_emplace i ptr (cached_types src)\<rparr>))
             | _ \<Rightarrow> Some (Inr None, src)))
          else Some (Inl Unreachable, src))))"
| "ReconstructMembers ToPrimitiveType depth src [] = Some (Inr [], src)"
| "ReconstructMembers ToPrimitiveType depth src (m # ms) =
     (case ReconstructTypeInformation ToPrimitiveType depth src (m_type_id m) of
        None \<Rightarrow> None
      | Some (Inl e, src1) \<Rightarrow> Some (Inl e, src1)
      | Some (Inr type_info, src1) \<Rightarrow>
     (case ReconstructMembers ToPrimitiveType depth src1 ms of
        None \<Rightarrow> None
      | Some (Inl e, src2) \<Rightarrow> Some (Inl e, src2)
      | Some (Inr rest, src2) \<Rightarrow>
          Some (Inr (StructuredMember (m_name m) type_info (m_offset m) # rest), src2)))"

subsection \<open>A structure that points to itself\<close>

text \<open>The linked-list node of the example: one member \<open>next\<close>, a pointer to the node.\<close>

definition list_tree :: DIE where
  "list_tree = DIE TAG_compile_unit []
     [DIE TAG_structured_type
        [ATTR_id 1, ATTR_name ''node'', ATTR_size 2,
         ATTR_members [\<lparr>m_name = ''next'', m_type_id = 2, m_offset = 1\<rparr>]] [],
      DIE TAG_pointer_type [ATTR_id 2, ATTR_type 1, ATTR_size 1] []]"

definition list_source :: Source where
  "list_source = \<lparr>top_die = Some list_tree, cached_types = []\<rparr>"


text \<open>
  C8.  A tree in which the DIE of id \<open>s\<close> is a structured type with one member, the
  member's type id \<open>p\<close> is that of a pointer type, and the pointer's target is \<open>s\<close> again.
  With neither id in the cache, \<open>ReconstructTypeInformation\<close> returns at every depth bound
  from two on: the result is a structured type with one member whose type is a pointer
  type with type index \<open>s\<close>.  The pointer branch reads the name of its target and does
  not reconstruct it, so the recursion ends there; both types are in the cache afterwards.
\<close>

theorem ReconstructTypeInformation_self_referential:
  assumes "top_die src = Some tree"
    and "map_of (cached_types src) s = None"
    and "map_of (cached_types src) p = None"
    and "FindDIEById tree s = Some sd"
    and "get_tag sd = TAG_structured_type"
    and "FindDieAttribute get_if_ATTR_name sd = Some name"
    and "FindDieAttribute get_if_ATTR_size sd = Some sz"
    and "FindDieAttribute get_if_ATTR_members sd = Some [m]"
    and "m_type_id m = p"
    and "FindDIEById tree p = Some pd"
    and "get_tag pd = TAG_pointer_type"
    and "FindDieAttribute get_if_ATTR_type pd = Some s"
    and "FindDieAttribute get_if_ATTR_size pd = Some psz"
  shows "ReconstructTypeInformation ToPrimitiveType (Suc (Suc depth)) src s =
           Some (Inr (Some (StructuredType name sz
                   [StructuredMember (m_name m) (Some (PointerType s name psz)) (m_offset m)])),
                 src\<lparr>cached_types :=
                   map_emplace s (StructuredType name sz
                       [StructuredMember (m_name m) (Some (PointerType s name psz)) (m_offset m)])
                     (map_emplace p (PointerType s name psz) (cached_types src))\<rparr>)"
proof -
  have ptr: "ReconstructTypeInformation ToPrimitiveType (Suc depth) src p =
               Some (Inr (Some (PointerType s name psz)),
                     src\<lparr>cached_types := map_emplace p (PointerType s name psz) (cached_types src)\<rparr>)"
    using assms by (simp add: Let_def)
  have mem: "ReconstructMembers ToPrimitiveType (Suc depth) src [m] =
               Some (Inr [StructuredMember (m_name m) (Some (PointerType s name psz)) (m_offset m)],
                     src\<lparr>cached_types := map_emplace p (PointerType s name psz) (cached_types src)\<rparr>)"
    using ptr assms(9) by simp
  show ?thesis
    using assms(1,2,4-8) mem by (simp add: Let_def del: ReconstructMembers.simps)
qed

theorem ReconstructTypeInformation_self_referential_witness:
  "FindDIEById list_tree 1 \<noteq> None \<and> FindDIEById list_tree 2 \<noteq> None \<and>
   ReconstructTypeInformation (\<lambda>n. None) (Suc (Suc 0)) list_source 1 =
     Some (Inr (Some (StructuredType ''node'' 2
             [StructuredMember ''next'' (Some (PointerType 1 ''node'' 1)) 1])),
           \<lparr>top_die = Some list_tree,
            cached_types =
              [(1, StructuredType ''node'' 2
                     [StructuredMember ''next'' (Some (PointerType 1 ''node'' 1)) 1]),
               (2, PointerType 1 ''node'' 1)]\<rparr>)"
  using ReconstructTypeInformation_self_referential
    [where src = list_source and tree = list_tree and s = 1 and p = 2
       and m = "\<lparr>m_name = ''next'', m_type_id = 2, m_offset = 1\<rparr>"
       and name = "''node''" and sz = 2 and psz = 1 and depth = 0
       and ToPrimitiveType = "\<lambda>n. None"
       and sd = "DIE TAG_structured_type
        [ATTR_id 1, ATTR_name ''node'', ATTR_size 2,
         ATTR_members [\<lparr>m_name = ''next'', m_type_id = 2, m_offset = 1\<rparr>]] []"
       and pd = "DIE TAG_pointer_type [ATTR_id 2, ATTR_type 1, ATTR_size 1] []"]
  by (simp add: list_source_def list_tree_def FindDieAttribute_def)

end
